theory Spec2Isabelle
  imports Complex_Main "HOL-Library.Multiset" "HOL-Library.Product_Lexorder"
begin

section \<open>Common data\<close>

text \<open>
  The repository has two stages. An R script reads the 456 California locations, derives
  the target and the scaled altitude, shuffles the rows, builds the distance matrix and the
  nearest-neighbour graph. A Python notebook appends the one-hot vertex degree, splits the
  vertices into train and test sets, trains a two-layer graph convolutional network and
  reports its test loss. Reals stand for floating-point numbers throughout; every raise
  of the source is a value of \<open>error\<close>.
\<close>

datatype error =
  RuntimeError | IndexError | NameError | OverflowError | SubscriptOutOfBounds | CoordinateError

type_synonym matrix = "real list list"

text \<open>A \<open>for\<close> loop whose body may raise: the first raise ends it.\<close>

fun for_loop :: "('i \<Rightarrow> 's \<Rightarrow> error + 's) \<Rightarrow> 'i list \<Rightarrow> 's \<Rightarrow> error + 's" where
  "for_loop body [] s = Inr s"
| "for_loop body (i # rest) s =
     (case body i s of Inl e \<Rightarrow> Inl e | Inr s1 \<Rightarrow> for_loop body rest s1)"

section \<open>Stage 1: pre-processing in R\<close>

subsection \<open>Rows, target and scaled altitude\<close>

record location =
  NAME :: string
  LAT :: real
  LONG :: real
  ALT :: real
  MONTHS :: "real list"

text \<open>
  \<^verbatim>\<open>
  p$pan <- rowSums(p[,6:17])    # Columns 6:17 are Jan - Dec
  p$scaled.alt <- scale(p$ALT)  # "0-mean 1-std" standardization for simplicity
  \<close>
  A row of \<open>p\<close> after these two assignments. An entry of \<open>scaled_alt\<close> is \<open>None\<close> where R
  has \<open>NaN\<close> or \<open>NA\<close>.
\<close>

record row =
  loc :: location
  pan :: real
  scaled_alt :: "real option"

definition mean :: "real list \<Rightarrow> real" where
  "mean xs = sum_list xs / real (length xs)"

text \<open>The sample standard deviation (denominator \<open>n - 1\<close>), as R's \<open>sd\<close> and \<open>scale\<close> use it.\<close>

definition sd :: "real list \<Rightarrow> real" where
  "sd xs = sqrt (sum_list (map (\<lambda>v. (v - mean xs)\<^sup>2) xs) / (real (length xs) - 1))"

text \<open>
  Modelled from the spec: R's \<open>scale\<close>, a function of base R whose code is not part of the
  sources. The spec: "scaled_feature_v = (raw_feature_v - mean(raw_feature)) /
  population_or_sample_std(raw_feature); if std is zero, undefined". The standard
  deviation is the sample one. Where it is undefined or zero every entry is \<open>None\<close>.
\<close>

definition scale :: "real list \<Rightarrow> real option list" where
  "scale xs =
     (if length xs < 2 \<or> sd xs = 0 then map (\<lambda>v. None) xs
      else map (\<lambda>v. Some ((v - mean xs) / sd xs)) xs)"

definition add_columns :: "location list \<Rightarrow> row list" where
  "add_columns p =
     map2 (\<lambda>l s. \<lparr>loc = l, pan = sum_list (MONTHS l), scaled_alt = s\<rparr>) p (scale (map ALT p))"

subsection \<open>Shuffling the rows\<close>

text \<open>
  \<^verbatim>\<open>
  set.seed(42)
  n <- nrow(p)
  p <- p[sample(n), ]
  \<close>
  R's random number generator is a global state of some type \<open>'r\<close>. \<open>set.seed\<close> replaces
  it by a state that depends on the seed only; \<open>sample\<close> reads and advances it. Both are
  functions of base R, taken as parameters.
\<close>

record 'r R_random =
  set_seed :: "int \<Rightarrow> 'r"
  sample :: "'r \<Rightarrow> nat \<Rightarrow> nat list \<times> 'r"

text \<open>
  \<open>p[idx, ]\<close> with one-based row numbers. R drops a row number 0. For a row number beyond
  the last row R would insert a row of \<open>NA\<close>; \<open>sample(n)\<close> never returns one, and the model
  stops there.
\<close>

definition r_rows :: "'a list \<Rightarrow> nat list \<Rightarrow> error + 'a list" where
  "r_rows p idx =
     (let pos = filter (\<lambda>i. 0 < i) idx in
      if list_all (\<lambda>i. i \<le> length p) pos then Inr (map (\<lambda>i. p ! (i - 1)) pos)
      else Inl SubscriptOutOfBounds)"

text \<open>\<open>rng0\<close> is the state of the generator when the script starts.\<close>

definition shuffle :: "'r R_random \<Rightarrow> 'r \<Rightarrow> 'a list \<Rightarrow> error + 'a list" where
  "shuffle R rng0 p =
     (let rng1 = set_seed R 42;
          n = length p;
          (idx, rng2) = sample R rng1 n
      in r_rows p idx)"

subsection \<open>Distance matrix\<close>

text \<open>
  Modelled from the spec: the formula of \<open>geosphere::distHaversine\<close>, a library function
  whose code is not part of the sources. The spec: "the haversine great-circle distance",
  here in metres, between two points given as (longitude, latitude) in degrees, on a
  sphere of radius 6378137.
\<close>

definition haversine :: "real \<times> real \<Rightarrow> real \<times> real \<Rightarrow> real" where
  "haversine p1 p2 =
     (let toRad = pi / 180;
          lon1 = fst p1 * toRad; lat1 = snd p1 * toRad;
          lon2 = fst p2 * toRad; lat2 = snd p2 * toRad;
          dLat = lat2 - lat1;
          dLon = lon2 - lon1;
          a = (sin (dLat / 2))\<^sup>2 + cos lat1 * cos lat2 * (sin (dLon / 2))\<^sup>2
      in 2 * arcsin (sqrt (min a 1)) * 6378137)"

text \<open>
  Modelled from the spec: the points \<open>geosphere::distHaversine\<close> accepts. The library
  stops on a longitude outside \<open>-360 .. 360\<close> and on a latitude outside \<open>-90 .. 90\<close>.
\<close>

definition valid_point :: "real \<times> real \<Rightarrow> bool" where
  "valid_point q \<longleftrightarrow> - 360 \<le> fst q \<and> fst q \<le> 360 \<and> - 90 \<le> snd q \<and> snd q \<le> 90"

text \<open>
  Modelled from the spec: \<open>geosphere::distHaversine\<close>. A point the library does not accept
  raises; otherwise the result is the distance by the formula.
\<close>

definition distHaversine :: "real \<times> real \<Rightarrow> real \<times> real \<Rightarrow> error + real" where
  "distHaversine p1 p2 =
     (if valid_point p1 \<and> valid_point p2 then Inr (haversine p1 p2) else Inl CoordinateError)"

text \<open>
  \<^verbatim>\<open>
  get_geo_distance = function(long1, lat1, long2, lat2, units = "miles") {
    ...
    distance_list = purrr::map2(longlat1, longlat2, function(x,y) geosphere::distHaversine(x, y))
    distance_m = list_extract(distance_list, position = 1)
    if (units == "km") { distance = distance_m / 1000.0; }
    else if (units == "miles") { distance = distance_m / 1609.344 }
    else { distance = distance_m }
    distance
  }
  \<close>
  The script calls it on one pair of points at a time, so the lists have one element and
  \<open>list_extract\<close> at position 1 returns that distance.
\<close>

definition get_geo_distance :: "real \<Rightarrow> real \<Rightarrow> real \<Rightarrow> real \<Rightarrow> string \<Rightarrow> error + real" where
  "get_geo_distance long1 lat1 long2 lat2 units =
     (case distHaversine (long1, lat1) (long2, lat2) of
        Inl e \<Rightarrow> Inl e
      | Inr distance_m \<Rightarrow>
          Inr (if units = ''km'' then distance_m / 1000
               else if units = ''miles'' then distance_m / 1609.344
               else distance_m))"

text \<open>
  \<^verbatim>\<open>
  distances <- matrix(nrow = n, ncol = n, data = -1)
  for(ii in 1:n){
    for(jj in 1:ii){
      if(ii == jj){
        distances[ii, ii] <- 0.0
      }else{
        distances[ii, jj] <- get_geo_distance(long1=p$LONG[ii], lat1=p$LAT[ii],
                                              long2=p$LONG[jj], lat2=p$LAT[jj],
                                              units='km')
        distances[jj, ii] <- distances[ii, jj]
      }
    }
  }
  \<close>
  A matrix is the list of its rows. The R indices \<open>ii\<close>, \<open>jj\<close> count from 1; entry
  \<open>[ii, jj]\<close> is \<open>m ! (ii - 1) ! (jj - 1)\<close>.
\<close>

definition mat_get :: "matrix \<Rightarrow> nat \<Rightarrow> nat \<Rightarrow> real" where
  "mat_get m ii jj = m ! (ii - 1) ! (jj - 1)"

definition mat_set :: "matrix \<Rightarrow> nat \<Rightarrow> nat \<Rightarrow> real \<Rightarrow> matrix" where
  "mat_set m ii jj v = m[ii - 1 := (m ! (ii - 1))[jj - 1 := v]]"

definition distances_inner :: "row list \<Rightarrow> nat \<Rightarrow> nat \<Rightarrow> matrix \<Rightarrow> error + matrix" where
  "distances_inner p ii jj dm =
     (if ii = jj then Inr (mat_set dm ii ii 0)
      else
        (case get_geo_distance (LONG (loc (p ! (ii - 1)))) (LAT (loc (p ! (ii - 1))))
                               (LONG (loc (p ! (jj - 1)))) (LAT (loc (p ! (jj - 1)))) ''km'' of
           Inl e \<Rightarrow> Inl e
         | Inr d \<Rightarrow>
             let d1 = mat_set dm ii jj d
             in Inr (mat_set d1 jj ii (mat_get d1 ii jj))))"

text \<open>
  For \<open>n = 0\<close> the sequence \<open>1:n\<close> is \<open>(1, 0)\<close>, and the first assignment
  \<open>distances[1, 1] <- 0.0\<close> into the empty matrix stops the script with
  "subscript out of bounds". For \<open>n \<ge> 1\<close> every index is between 1 and \<open>n\<close>.
\<close>

definition distances :: "row list \<Rightarrow> error + matrix" where
  "distances p =
     (let n = length p in
      if n = 0 then Inl SubscriptOutOfBounds
      else for_loop (\<lambda>ii dm. for_loop (distances_inner p ii) [1..<ii + 1] dm)
                    [1..<n + 1]
                    (replicate n (replicate n (- 1))))"

text \<open>
  Three notions used to state what the loop computes: the kilometres between the stations
  of two rows by the formula; the matrix after one pass through the body of the inner
  loop when the library accepts both points; a row whose point the library accepts.
\<close>

definition km_between :: "row \<Rightarrow> row \<Rightarrow> real" where
  "km_between r1 r2 =
     haversine (LONG (loc r1), LAT (loc r1)) (LONG (loc r2), LAT (loc r2)) / 1000"

definition inner_step :: "row list \<Rightarrow> nat \<Rightarrow> nat \<Rightarrow> matrix \<Rightarrow> matrix" where
  "inner_step p ii jj dm =
     (if ii = jj then mat_set dm ii ii 0
      else
        let d1 = mat_set dm ii jj (km_between (p ! (ii - 1)) (p ! (jj - 1)))
        in mat_set d1 jj ii (mat_get d1 ii jj))"

definition valid_row :: "row \<Rightarrow> bool" where
  "valid_row r \<longleftrightarrow> valid_point (LONG (loc r), LAT (loc r))"

text \<open>An \<open>n \<times> n\<close> matrix.\<close>

definition square :: "nat \<Rightarrow> matrix \<Rightarrow> bool" where
  "square n m \<longleftrightarrow> length m = n \<and> list_all (\<lambda>r. length r = n) m"

text \<open>
  The entry that the loop is meant to leave at row \<open>a\<close> and column \<open>b\<close> (counted from 0):
  zero on the diagonal, and off the diagonal the distance from the row with the larger
  index to the row with the smaller one.
\<close>

definition entry :: "row list \<Rightarrow> nat \<Rightarrow> nat \<Rightarrow> real" where
  "entry p a b =
     (if a = b then 0
      else if b < a then km_between (p ! a) (p ! b)
      else km_between (p ! b) (p ! a))"

subsection \<open>Nearest-neighbour graph\<close>

text \<open>
  \<^verbatim>\<open>
  g <- as.undirected(
    nng(dx=distances, k=5, mutual=FALSE)   # (mutual=FALSE then undirected) != using mutual=TRUE)
  )
  \<close>
  Vertices are numbered from 0 here (R's vertex \<open>i + 1\<close>).
\<close>

record igraph =
  vcount :: nat
  edges :: "(nat \<times> nat) list"

text \<open>
  Modelled from the spec: the selection made by \<open>cccd::nng\<close>, a library function whose
  code is not part of the sources. The spec: "for each vertex i, select the k=5 vertices
  with smallest distance (excluding itself); ties broken by stable index order (lower
  index wins)". The other vertices are sorted by the pair (distance, index) and the
  first \<open>k\<close> are taken.
\<close>

definition nearest :: "matrix \<Rightarrow> nat \<Rightarrow> nat \<Rightarrow> nat list" where
  "nearest dx k i =
     take k (sort_key (\<lambda>j. (dx ! i ! j, j)) (filter (\<lambda>j. j \<noteq> i) [0..<length dx]))"

text \<open>
  Modelled from the spec: \<open>cccd::nng\<close>. The spec: "Produce directed nearest-neighbor
  edges"; with \<open>mutual\<close> only the edges selected in both directions are kept.
\<close>

definition nng :: "matrix \<Rightarrow> nat \<Rightarrow> bool \<Rightarrow> igraph" where
  "nng dx k mutual =
     (let sel = concat (map (\<lambda>i. map (\<lambda>j. (i, j)) (nearest dx k i)) [0..<length dx]) in
      \<lparr>vcount = length dx,
       edges = (if mutual then filter (\<lambda>e. (snd e, fst e) \<in> set sel) sel else sel)\<rparr>)"

text \<open>
  Modelled from the spec: \<open>igraph::as.undirected\<close>, a library function whose code is not
  part of the sources. The spec: "then symmetrize: an undirected edge (i,j) exists iff
  i\<rightarrow>j or j\<rightarrow>i was selected. Deduplicate." An undirected edge is stored once, as the
  pair with the smaller vertex first.
\<close>

definition as_undirected :: "igraph \<Rightarrow> igraph" where
  "as_undirected g =
     g\<lparr>edges :=
         filter (\<lambda>e. fst e < snd e
                     \<and> (e \<in> set (edges g) \<or> (snd e, fst e) \<in> set (edges g)))
                (List.product [0..<vcount g] [0..<vcount g])\<rparr>"

definition adjacent :: "igraph \<Rightarrow> nat \<Rightarrow> nat \<Rightarrow> bool" where
  "adjacent g i j \<longleftrightarrow> (i, j) \<in> set (edges g) \<or> (j, i) \<in> set (edges g)"

text \<open>The graph the script builds from the distance matrix.\<close>

definition knn_graph :: "matrix \<Rightarrow> igraph" where
  "knn_graph dx = as_undirected (nng dx 5 False)"

subsection \<open>The whole script\<close>

text \<open>
  The script writes three files: the targets, the scaled altitudes and the graph, all
  in the order of the shuffled rows.
\<close>

definition preprocess ::
  "'r R_random \<Rightarrow> 'r \<Rightarrow> location list \<Rightarrow> error + (real list \<times> real option list \<times> igraph)" where
  "preprocess R rng0 p0 =
     (case shuffle R rng0 (add_columns p0) of
        Inl e \<Rightarrow> Inl e
      | Inr p \<Rightarrow>
          (case distances p of
             Inl e \<Rightarrow> Inl e
           | Inr d \<Rightarrow> Inr (map pan p, map scaled_alt p, knn_graph d)))"

section \<open>Stage 2: the notebook\<close>

subsection \<open>The graph and its degree feature (cell 2)\<close>

text \<open>
  A PyTorch Geometric \<open>Data\<close> object: the feature matrix \<open>x\<close>, the directed edge list
  \<open>edge_index\<close> (an undirected edge is listed in both directions), the targets \<open>y\<close>, and
  the two masks the notebook adds (\<open>g.train_mask\<close>, \<open>g.test_mask\<close>).
\<close>

record graph =
  data_x :: matrix
  edge_index :: "(nat \<times> nat) list"
  data_y :: "real list"
  data_train_mask :: "bool list"
  data_test_mask :: "bool list"

definition num_nodes :: "graph \<Rightarrow> nat" where
  "num_nodes g = length (data_x g)"

definition num_node_features :: "graph \<Rightarrow> nat" where
  "num_node_features g = (case data_x g of [] \<Rightarrow> 0 | r # _ \<Rightarrow> length r)"

text \<open>
  Modelled from the spec: \<open>torch_geometric.utils.degree\<close>, a library function whose code is
  not part of the sources. The spec: "compute each vertex's undirected degree in the
  resulting graph". It counts how often each vertex occurs in \<open>index\<close>; without
  \<open>num_nodes\<close> the number of vertices is the largest index plus one.
\<close>

definition degree :: "nat list \<Rightarrow> nat option \<Rightarrow> error + nat list" where
  "degree index num =
     (let N = (case num of
                 Some N \<Rightarrow> N
               | None \<Rightarrow> (case index of [] \<Rightarrow> 0 | v # vs \<Rightarrow> fold max vs v + 1))
      in if list_all (\<lambda>v. v < N) index then Inr (map (\<lambda>v. count_list index v) [0..<N])
         else Inl RuntimeError)"

text \<open>\<open>torch.max\<close> of a tensor; the empty tensor raises.\<close>

definition torch_max :: "nat list \<Rightarrow> error + nat" where
  "torch_max t = (case t of [] \<Rightarrow> Inl RuntimeError | v # vs \<Rightarrow> Inr (fold max vs v))"

text \<open>
  Modelled from the spec: \<open>torch.nn.functional.one_hot\<close> and
  \<open>torch_geometric.transforms.OneHotDegree\<close>, library functions whose code is not part of
  the sources. The spec: "build a one-hot vector of length (max_degree_observed + 1)
  indexed by that vertex's degree; concatenate to scaled_feature to form the final
  feature vector". A class beyond the number of classes raises.
\<close>

definition one_hot :: "nat list \<Rightarrow> nat \<Rightarrow> error + matrix" where
  "one_hot ds num_classes =
     (if list_all (\<lambda>d. d < num_classes) ds
      then Inr (map (\<lambda>d. map (\<lambda>j. if j = d then 1 else 0) [0..<num_classes]) ds)
      else Inl RuntimeError)"

definition OneHotDegree :: "nat \<Rightarrow> graph \<Rightarrow> error + graph" where
  "OneHotDegree max_degree data =
     (case degree (map fst (edge_index data)) (Some (num_nodes data)) of
        Inl e \<Rightarrow> Inl e
      | Inr deg \<Rightarrow>
          (case one_hot deg (max_degree + 1) of
             Inl e \<Rightarrow> Inl e
           | Inr oh \<Rightarrow> Inr (data\<lparr>data_x := map2 (\<lambda>r h. r @ h) (data_x data) oh\<rparr>)))"

text \<open>
  \<^verbatim>\<open>
  degrees = torch_geometric.utils.degree(g.edge_index[0])
  max_deg = torch.max(degrees).long().item()
  add_degree_fn = transforms.OneHotDegree(max_deg)
  add_degree_fn(g)
  \<close>
\<close>

definition add_degree_cell :: "graph \<Rightarrow> error + graph" where
  "add_degree_cell g =
     (case degree (map fst (edge_index g)) None of
        Inl e \<Rightarrow> Inl e
      | Inr degrees \<Rightarrow>
          (case torch_max degrees of
             Inl e \<Rightarrow> Inl e
           | Inr max_deg \<Rightarrow> OneHotDegree max_deg g))"

subsection \<open>Train/test partition of the vertex set (cell 3)\<close>

text \<open>
  The notebook's only user-defined function:
  \<^verbatim>\<open>
  def make_train_test_masks(data_size, train_size):
      # Creat a boolean with exactly `train_size` are True, rest False
      unshuffled_train = int(train_size) > torch.arange(data_size)
      # shuffle to get train mask
      train_mask = unshuffled_train[torch.randperm(data_size)]
      # negate to get test mask
      test_mask = ~train_mask
      return train_mask, test_mask

  g.train_mask, g.test_mask = make_train_test_masks(g.num_nodes, 0.2 * g.num_nodes)
  \<close>
  Tensors are lists, Python integers are \<open>int\<close>, the float \<open>train_size\<close> is a real.
  The entries of \<open>torch.arange\<close> and \<open>torch.randperm\<close> are 64-bit signed integers.
\<close>

text \<open>Python's \<open>int(x)\<close> on a float truncates toward zero.\<close>

definition py_int :: "real \<Rightarrow> int" where
  "py_int t = (if 0 \<le> t then \<lfloor>t\<rfloor> else \<lceil>t\<rceil>)"

text \<open>
  \<open>torch.arange(n)\<close> is \<open>0, ..., n - 1\<close>. A bound that does not fit 64 bits raises
  \<open>OverflowError\<close>; a negative bound, or one of \<open>2^63\<close> or more, raises
  \<open>RuntimeError\<close>.
\<close>

definition arange :: "int \<Rightarrow> error + int list" where
  "arange n =
     (if n < - (2 ^ 63) \<or> 2 ^ 64 \<le> n then Inl OverflowError
      else if n < 0 \<or> 2 ^ 63 \<le> n then Inl RuntimeError
      else Inr (map int [0..<nat n]))"

text \<open>
  \<open>t[idx]\<close> for an index tensor \<open>idx\<close>: the entries of \<open>t\<close> at the positions listed,
  in that order; a position outside \<open>t\<close> raises.
\<close>

definition index_select :: "'a list \<Rightarrow> nat list \<Rightarrow> error + 'a list" where
  "index_select t idx =
     (if list_all (\<lambda>i. i < length t) idx then Inr (map (\<lambda>i. t ! i) idx) else Inl IndexError)"

text \<open>
  \<open>torch.randperm(n)\<close> draws a permutation of \<open>0, ..., n - 1\<close> from the global generator;
  it raises unless \<open>0 \<le> n < 2^63\<close>.
  The function below takes the permutation drawn as its first argument \<open>perm\<close>;
  \<open>is_randperm perm n\<close> says that \<open>perm\<close> is a possible value of \<open>torch.randperm(n)\<close>.
\<close>

definition is_randperm :: "nat list \<Rightarrow> int \<Rightarrow> bool" where
  "is_randperm perm n \<longleftrightarrow> 0 \<le> n \<and> n < 2 ^ 63 \<and> mset perm = mset [0..<nat n]"

text \<open>
  A Python integer compared with an int64 tensor is first converted to a scalar of the
  tensor's type. An integer in the int64 range \<open>- 2^63, ..., 2^63 - 1\<close> is kept. One
  from \<open>2^63\<close> to \<open>2^64 - 1\<close> is read as an unsigned 64-bit number and wraps around to
  a negative one. Any other integer raises \<open>OverflowError\<close>.
\<close>

definition int64_scalar :: "int \<Rightarrow> error + int" where
  "int64_scalar c =
     (if - (2 ^ 63) \<le> c \<and> c < 2 ^ 63 then Inr c
      else if 2 ^ 63 \<le> c \<and> c < 2 ^ 64 then Inr (c - 2 ^ 64)
      else Inl OverflowError)"

definition make_train_test_masks :: "nat list \<Rightarrow> int \<Rightarrow> real \<Rightarrow> error + (bool list \<times> bool list)" where
  "make_train_test_masks perm data_size train_size =
     (case arange data_size of
        Inl e \<Rightarrow> Inl e
      | Inr ar \<Rightarrow>
          (case int64_scalar (py_int train_size) of
             Inl e \<Rightarrow> Inl e
           | Inr c \<Rightarrow>
               let unshuffled_train = map (\<lambda>i. c > i) ar in
               (case index_select unshuffled_train perm of
                  Inl e \<Rightarrow> Inl e
                | Inr train_mask \<Rightarrow>
                    let test_mask = map Not train_mask in
                    Inr (train_mask, test_mask))))"

text \<open>The call of the reference run, for a graph of \<open>n\<close> vertices.\<close>

definition partition_cell :: "nat list \<Rightarrow> nat \<Rightarrow> error + (bool list \<times> bool list)" where
  "partition_cell perm n = make_train_test_masks perm (int n) (0.2 * real n)"

text \<open>Number of vertices a mask selects.\<close>

definition count_true :: "bool list \<Rightarrow> nat" where
  "count_true bs = length (filter (\<lambda>b. b) bs)"

text \<open>A count is near a real target when it is within one vertex of it.\<close>

definition near :: "nat \<Rightarrow> real \<Rightarrow> bool" where
  "near c v \<longleftrightarrow> \<bar>real c - v\<bar> \<le> 1"

subsection \<open>The model (cell 4)\<close>

text \<open>
  PyTorch and PyTorch Geometric are libraries; what the notebook uses of them beyond list
  operations is taken as a parameter: the global random number generator (a state of some
  type \<open>'r\<close>), the graph convolution layer (its parameters have some type \<open>'w\<close>) and the
  Adam optimiser (its state has some type \<open>'o\<close>).
  \<^item> \<open>manual_seed s\<close> is the generator after \<open>torch.manual_seed(s)\<close>;
  \<^item> \<open>randperm\<close>, \<open>GCNConv_init\<close> and \<open>bernoulli\<close> draw from the generator and return
    the generator advanced;
  \<^item> \<open>GCNConv_forward w x edge_index\<close> is the output of the layer with parameters \<open>w\<close>;
  \<^item> \<open>Adam_step\<close> is \<open>loss.backward()\<close> followed by \<open>optimizer.step()\<close>: the new
    parameters of the two layers and the new optimiser state, from the old ones, the
    generator at the start of the forward pass (it fixes the dropout mask of that pass),
    the features, the edges, the targets and the train mask.
\<close>

record ('w, 'o, 'r) torch =
  manual_seed :: "int \<Rightarrow> 'r"
  randperm :: "'r \<Rightarrow> nat \<Rightarrow> nat list \<times> 'r"
  GCNConv_init :: "'r \<Rightarrow> nat \<Rightarrow> nat \<Rightarrow> 'w \<times> 'r"
  GCNConv_forward :: "'w \<Rightarrow> matrix \<Rightarrow> (nat \<times> nat) list \<Rightarrow> matrix"
  bernoulli :: "'r \<Rightarrow> real \<Rightarrow> nat list \<Rightarrow> bool list list \<times> 'r"
  Adam_init :: "'w \<times> 'w \<Rightarrow> real \<Rightarrow> real \<Rightarrow> 'o"
  Adam_step :: "'o \<Rightarrow> 'w \<times> 'w \<Rightarrow> 'r \<Rightarrow> graph \<Rightarrow> ('w \<times> 'w) \<times> 'o"

text \<open>
  \<^verbatim>\<open>
  class Model(nn.Module):
      def __init__(self, in_dim):
          super(Model, self).__init__()
          self.conv1 = GCNConv(in_dim, 16)
          self.conv2 = GCNConv(16, 1)

      def forward(self, data):
          x, edge_index = data.x, data.edge_index
          x = self.conv1(x, edge_index)
          x = F.relu(x)
          x = F.dropout(x, p=0.25, training=self.training)
          x = self.conv2(x, edge_index)
          return x.squeeze()
  \<close>
  A new module is in training mode.
\<close>

record 'w Model =
  conv1 :: 'w
  conv2 :: 'w
  training :: bool

definition Model_init :: "('w, 'o, 'r) torch \<Rightarrow> 'r \<Rightarrow> nat \<Rightarrow> 'w Model \<times> 'r" where
  "Model_init lib rng in_dim =
     (let (c1, rng1) = GCNConv_init lib rng in_dim 16;
          (c2, rng2) = GCNConv_init lib rng1 16 1
      in (\<lparr>conv1 = c1, conv2 = c2, training = True\<rparr>, rng2))"

definition relu :: "real \<Rightarrow> real" where
  "relu v = max 0 v"

text \<open>
  \<open>F.dropout(x, p, training)\<close>: in training mode each entry is kept with probability
  \<open>1 - p\<close> and divided by \<open>1 - p\<close>, or set to zero; otherwise \<open>x\<close> is returned as it is
  and the generator is not touched.
\<close>

definition dropout :: "('w, 'o, 'r) torch \<Rightarrow> matrix \<Rightarrow> real \<Rightarrow> bool \<Rightarrow> 'r \<Rightarrow> matrix \<times> 'r" where
  "dropout lib x0 p train rng =
     (if train then
        let (keep, rng1) = bernoulli lib rng (1 - p) (map length x0) in
        (map2 (map2 (\<lambda>k v. if k then v / (1 - p) else 0)) keep x0, rng1)
      else (x0, rng))"

text \<open>
  The last layer has one output per vertex, so \<open>squeeze\<close> turns the \<open>n \<times> 1\<close> matrix into
  the list of its \<open>n\<close> entries.
\<close>

definition forward :: "('w, 'o, 'r) torch \<Rightarrow> 'w Model \<Rightarrow> 'r \<Rightarrow> graph \<Rightarrow> real list \<times> 'r" where
  "forward lib self rng data =
     (let x0 = data_x data; ei = edge_index data;
          x1 = GCNConv_forward lib (conv1 self) x0 ei;
          x2 = map (map relu) x1;
          (x3, rng1) = dropout lib x2 0.25 (training self) rng;
          x4 = GCNConv_forward lib (conv2 self) x3 ei
      in (concat x4, rng1))"

subsection \<open>Training and evaluation (cells 5 and 6)\<close>

text \<open>\<open>t[m]\<close> for a boolean mask \<open>m\<close>: the entries where the mask is True; the shapes must agree.\<close>

definition masked :: "'a list \<Rightarrow> bool list \<Rightarrow> error + 'a list" where
  "masked t m =
     (if length m = length t then Inr (map fst (filter snd (zip t m))) else Inl IndexError)"

text \<open>
  The mean of the squared differences of two lists of the same length. The mean of no
  numbers is \<open>nan\<close>, here \<open>None\<close>.
\<close>

definition mse :: "real list \<Rightarrow> real list \<Rightarrow> real option" where
  "mse a b =
     (if a = [] then None
      else Some (sum_list (map2 (\<lambda>u v. (u - v)\<^sup>2) a b) / real (length a)))"

text \<open>
  \<open>nn.MSELoss()\<close> on two one-dimensional tensors. If the lengths differ and one of
  them is 1, that tensor is broadcast to the length of the other; if neither is 1 the
  call raises.
\<close>

definition MSELoss :: "real list \<Rightarrow> real list \<Rightarrow> error + real option" where
  "MSELoss a b =
     (if length a = length b then Inr (mse a b)
      else if length b = 1 then Inr (mse a (replicate (length a) (hd b)))
      else if length a = 1 then Inr (mse (replicate (length b) (hd a)) b)
      else Inl RuntimeError)"

text \<open>\<open>crit(t1[m], t2[m])\<close>.\<close>

definition masked_loss :: "real list \<Rightarrow> real list \<Rightarrow> bool list \<Rightarrow> error + real option" where
  "masked_loss t1 t2 m =
     (case masked t1 m of
        Inl e \<Rightarrow> Inl e
      | Inr a \<Rightarrow> (case masked t2 m of Inl e \<Rightarrow> Inl e | Inr b \<Rightarrow> MSELoss a b))"

text \<open>
  The variables of the notebook that the two cells read and write. \<open>pred\<close> is \<open>None\<close>
  until the first assignment to it; \<open>printed\<close> is what the cell has printed so far.
\<close>

record ('w, 'o, 'r) session =
  model :: "'w Model"
  optimizer :: 'o
  generator :: 'r
  pred :: "real list option"
  printed :: "real option list"

text \<open>
  \<^verbatim>\<open>
  for epo in range(5000):
      optimizer.zero_grad()
      pred = model(g)
      loss = crit(pred[g.train_mask], g.y[g.train_mask])
      loss.backward()
      optimizer.step()
      if epo % 500 == 0:
          print(loss.item())
  \<close>
\<close>

definition epoch ::
  "('w, 'o, 'r) torch \<Rightarrow> graph \<Rightarrow> nat \<Rightarrow> ('w, 'o, 'r) session \<Rightarrow> error + ('w, 'o, 'r) session" where
  "epoch lib g epo s =
     (let (p, rng1) = forward lib (model s) (generator s) g in
      case masked_loss p (data_y g) (data_train_mask g) of
        Inl e \<Rightarrow> Inl e
      | Inr loss \<Rightarrow>
          let ((c1, c2), opt) =
                Adam_step lib (optimizer s) (conv1 (model s), conv2 (model s)) (generator s) g
          in Inr \<lparr>model = (model s)\<lparr>conv1 := c1, conv2 := c2\<rparr>,
                  optimizer = opt,
                  generator = rng1,
                  pred = Some p,
                  printed = (if epo mod 500 = 0 then printed s @ [loss] else printed s)\<rparr>)"

text \<open>
  \<^verbatim>\<open>
  model = Model(g.num_node_features)
  optimizer = torch.optim.Adam(model.parameters(), lr = 0.01, weight_decay=5e-4)
  crit = nn.MSELoss()
  model.train()
  for epo in range(5000): ...
  \<close>
\<close>

definition train_cell ::
  "('w, 'o, 'r) torch \<Rightarrow> 'r \<Rightarrow> graph \<Rightarrow> error + ('w, 'o, 'r) session" where
  "train_cell lib rng g =
     (let (m, rng1) = Model_init lib rng (num_node_features g);
          opt = Adam_init lib (conv1 m, conv2 m) 0.01 0.0005
      in for_loop (epoch lib g) [0..<5000]
           \<lparr>model = m\<lparr>training := True\<rparr>, optimizer = opt, generator = rng1,
            pred = None, printed = []\<rparr>)"

text \<open>
  \<^verbatim>\<open>
  model.eval()
  test_pred = model(g)
  test_loss = crit(pred[g.test_mask], g.y[g.test_mask]).item()
  print(test_loss)
  \<close>
  The cell returns the value of \<open>test_pred\<close> and the \<open>test_loss\<close> it prints.
\<close>

definition eval_cell ::
  "('w, 'o, 'r) torch \<Rightarrow> graph \<Rightarrow> ('w, 'o, 'r) session \<Rightarrow> error + (real list \<times> real option)" where
  "eval_cell lib g s =
     (let m = (model s)\<lparr>training := False\<rparr>;
          (test_pred, rng1) = forward lib m (generator s) g
      in case pred s of
           None \<Rightarrow> Inl NameError
         | Some p \<Rightarrow>
             (case masked_loss p (data_y g) (data_test_mask g) of
                Inl e \<Rightarrow> Inl e
              | Inr test_loss \<Rightarrow> Inr (test_pred, test_loss)))"

subsection \<open>The whole notebook\<close>

text \<open>
  Cell 1 seeds the generator (\<open>torch.manual_seed(42)\<close>); cells 2 to 6 follow. \<open>rng0\<close> is
  the state of the generator when the notebook starts, \<open>g0\<close> the graph loaded from the
  files of stage 1. The result is what the notebook reports: the two masks, the losses
  printed during training and the test loss.
\<close>

definition notebook ::
  "('w, 'o, 'r) torch \<Rightarrow> 'r \<Rightarrow> graph
     \<Rightarrow> error + (bool list \<times> bool list \<times> real option list \<times> real option)" where
  "notebook lib rng0 g0 =
     (let rng1 = manual_seed lib 42 in
      case add_degree_cell g0 of
        Inl e \<Rightarrow> Inl e
      | Inr g1 \<Rightarrow>
          let (perm, rng2) = randperm lib rng1 (num_nodes g1) in
          (case partition_cell perm (num_nodes g1) of
             Inl e \<Rightarrow> Inl e
           | Inr (tr, te) \<Rightarrow>
               let g2 = g1\<lparr>data_train_mask := tr, data_test_mask := te\<rparr> in
               (case train_cell lib rng2 g2 of
                  Inl e \<Rightarrow> Inl e
                | Inr s \<Rightarrow>
                    (case eval_cell lib g2 s of
                       Inl e \<Rightarrow> Inl e
                     | Inr (test_pred, test_loss) \<Rightarrow> Inr (tr, te, printed s, test_loss)))))"

subsection \<open>A small instance of the library and of the input\<close>

text \<open>
  To run the notebook on a concrete input the library parameters need values. In this
  instance the generator has a single state, \<open>randperm\<close> draws the identity, a layer has
  one real weight, initially 1, and one output per vertex, the weight times the sum of the
  vertex's inputs, dropout draws "keep" for every entry, and the optimiser step leaves the
  parameters as they are.
\<close>

definition tiny_torch :: "(real, unit, unit) torch" where
  "tiny_torch =
     \<lparr>manual_seed = (\<lambda>s. ()),
      randperm = (\<lambda>r n. ([0..<n], r)),
      GCNConv_init = (\<lambda>r n_in n_out. (1, r)),
      GCNConv_forward = (\<lambda>w x0 ei. map (\<lambda>r. [w * sum_list r]) x0),
      bernoulli = (\<lambda>r q shape. (map (\<lambda>k. replicate k True) shape, r)),
      Adam_init = (\<lambda>p lr wd. ()),
      Adam_step = (\<lambda>opt p r g. (p, opt))\<rparr>"

text \<open>Five stations on a ring, as loaded from the files of stage 1.\<close>

definition ring5 :: graph where
  "ring5 =
     \<lparr>data_x = [[2], [5], [5], [5], [5]],
      edge_index = [(0, 1), (1, 0), (1, 2), (2, 1), (2, 3), (3, 2), (3, 4), (4, 3), (4, 0), (0, 4)],
      data_y = [4, 8, 8, 8, 8],
      data_train_mask = [], data_test_mask = []\<rparr>"

text \<open>The same graph after cells 2 and 3, when the permutation drawn is the identity.\<close>

definition ring5_split :: graph where
  "ring5_split =
     \<lparr>data_x = [[2, 0, 0, 1], [5, 0, 0, 1], [5, 0, 0, 1], [5, 0, 0, 1], [5, 0, 0, 1]],
      edge_index = [(0, 1), (1, 0), (1, 2), (2, 1), (2, 3), (3, 2), (3, 4), (4, 3), (4, 0), (0, 4)],
      data_y = [4, 8, 8, 8, 8],
      data_train_mask = [True, False, False, False, False],
      data_test_mask = [False, True, True, True, True]\<rparr>"

section \<open>Properties of the standardization\<close>

lemma sum_list_centred:
  "sum_list (map (\<lambda>v. (v - m) / s) xs) = (sum_list xs - real (length xs) * m) / (s::real)"
  by (induction xs) (simp_all add: algebra_simps diff_divide_distrib add_divide_distrib)

lemma sum_list_centred_sq:
  "sum_list (map (\<lambda>v. ((v - m) / s)\<^sup>2) xs) = sum_list (map (\<lambda>v. (v - m)\<^sup>2) xs) / (s::real)\<^sup>2"
  by (induction xs) (simp_all add: power_divide add_divide_distrib)

lemma sum_list_sq_nonneg: "0 \<le> sum_list (map (\<lambda>v. (v - (m::real))\<^sup>2) xs)"
  by (induction xs) simp_all

text \<open>
  Claim C8. The scaled altitude is the altitude minus the mean of the altitudes, divided
  by their standard deviation; over the full vertex set its mean is 0 and its standard
  deviation is 1. Over the reals both are exact; they are defined when there are at
  least two altitudes and the altitudes are not all equal.
\<close>

theorem scale_standardizes:
  assumes "2 \<le> length xs" and "sd xs \<noteq> 0"
  shows "\<exists>ys. scale xs = map Some ys
            \<and> ys = map (\<lambda>v. (v - mean xs) / sd xs) xs
            \<and> mean ys = 0 \<and> sd ys = 1"
proof -
  let ?m = "mean xs" and ?s = "sd xs"
  let ?ys = "map (\<lambda>v. (v - ?m) / ?s) xs"
  let ?q = "sum_list (map (\<lambda>v. (v - ?m)\<^sup>2) xs) / (real (length xs) - 1)"
  have n: "real (length xs) - 1 > 0" using assms(1) by simp
  have len: "real (length xs) \<noteq> 0" using assms(1) by auto
  have 1: "scale xs = map Some ?ys"
    using assms by (simp add: scale_def comp_def)
  have "sum_list ?ys = (sum_list xs - real (length xs) * ?m) / ?s"
    by (rule sum_list_centred)
  also have "\<dots> = 0"
    using len by (simp add: mean_def)
  finally have s0: "sum_list ?ys = 0" .
  then have 2: "mean ?ys = 0"
    by (simp add: mean_def)
  have q: "0 \<le> ?q"
    using n sum_list_sq_nonneg [of ?m xs] by simp
  have sq: "?s\<^sup>2 = ?q"
    unfolding sd_def using q by simp
  have s2: "?s\<^sup>2 \<noteq> 0" using assms(2) by simp
  have "sum_list (map (\<lambda>v. (v - mean ?ys)\<^sup>2) ?ys) = sum_list (map (\<lambda>v. ((v - ?m) / ?s)\<^sup>2) xs)"
    by (simp add: 2 comp_def)
  also have "\<dots> = sum_list (map (\<lambda>v. (v - ?m)\<^sup>2) xs) / ?s\<^sup>2"
    by (rule sum_list_centred_sq)
  finally have "sum_list (map (\<lambda>v. (v - mean ?ys)\<^sup>2) ?ys) / (real (length ?ys) - 1) = ?q / ?s\<^sup>2"
    by simp
  also have "\<dots> = 1" using sq s2 by simp
  finally have 3: "sd ?ys = 1"
    by (simp add: sd_def)
  show ?thesis using 1 2 3 by blast
qed

text \<open>The altitudes 1, 2, 3 have mean 2 and standard deviation 1.\<close>

theorem scale_standardizes_witness:
  "2 \<le> length [1, 2, 3 :: real] \<and> sd [1, 2, 3] \<noteq> 0
   \<and> (\<exists>ys. scale [1, 2, 3] = map Some ys
            \<and> ys = map (\<lambda>v. (v - mean [1, 2, 3]) / sd [1, 2, 3]) [1, 2, 3]
            \<and> mean ys = 0 \<and> sd ys = 1)"
proof -
  have l: "2 \<le> length [1, 2, 3 :: real]" by simp
  have s: "sd [1, 2, 3] \<noteq> 0" by (simp add: sd_def mean_def)
  show ?thesis by (intro conjI l s scale_standardizes [OF l s])
qed

text \<open>
  The script stores the scaled altitudes and the annual totals as columns of \<open>p\<close>, next
  to the rows it read.
\<close>

lemma scale_length: "length (scale xs) = length xs"
  by (simp add: scale_def)

lemma add_columns_columns:
  "map loc (add_columns p) = p
   \<and> map scaled_alt (add_columns p) = scale (map ALT p)
   \<and> map pan (add_columns p) = map (\<lambda>l. sum_list (MONTHS l)) p"
proof -
  have l: "length (scale (map ALT p)) = length p" by (simp add: scale_length)
  have 1: "map loc (add_columns p) = map fst (zip p (scale (map ALT p)))"
    by (simp add: add_columns_def case_prod_beta)
  have 2: "map scaled_alt (add_columns p) = map snd (zip p (scale (map ALT p)))"
    by (simp add: add_columns_def case_prod_beta)
  have 3: "map pan (add_columns p) = map (\<lambda>l. sum_list (MONTHS l)) (map fst (zip p (scale (map ALT p))))"
    by (simp add: add_columns_def case_prod_beta comp_def)
  show ?thesis unfolding 1 2 3 using l by simp
qed

section \<open>Properties of the distance matrix\<close>

lemma square_nth: "square n m \<Longrightarrow> a < n \<Longrightarrow> length (m ! a) = n"
  by (simp add: square_def list_all_length)

lemma square_length: "square n m \<Longrightarrow> length m = n"
  by (simp add: square_def)

lemma square_mat_set:
  assumes "square n m"
  shows "square n (mat_set m ii jj v)"
proof (cases "ii - 1 < length m")
  case True
  then have "length ((m ! (ii - 1))[jj - 1 := v]) = n"
    using assms by (simp add: square_def list_all_length)
  then show ?thesis
    using assms True unfolding square_def mat_set_def list_all_length
    by (simp add: nth_list_update)
next
  case False
  then show ?thesis using assms by (simp add: mat_set_def list_update_beyond not_less)
qed

lemma nth_mat_set:
  assumes "square n m" and "1 \<le> ii" and "ii \<le> n" and "1 \<le> jj" and "jj \<le> n"
    and "a < n" and "b < n"
  shows "mat_set m ii jj v ! a ! b = (if a = ii - 1 \<and> b = jj - 1 then v else m ! a ! b)"
  using assms square_nth [OF assms(1), of "ii - 1"] square_length [OF assms(1)]
  unfolding mat_set_def by (auto simp: nth_list_update)

lemma mat_get_mat_set:
  assumes "square n m" and "1 \<le> ii" and "ii \<le> n" and "1 \<le> jj" and "jj \<le> n"
  shows "mat_get (mat_set m ii jj v) ii jj = v"
  unfolding mat_get_def using nth_mat_set [OF assms, of "ii - 1" "jj - 1" v] assms by simp

lemma square_inner_step: "square n m \<Longrightarrow> square n (inner_step p ii jj m)"
  by (simp add: inner_step_def Let_def square_mat_set)

lemma nth_inner_step:
  assumes "square n m" and "1 \<le> jj" and "jj \<le> ii" and "ii \<le> n" and "a < n" and "b < n"
  shows "inner_step p ii jj m ! a ! b =
           (if (a = ii - 1 \<and> b = jj - 1) \<or> (a = jj - 1 \<and> b = ii - 1) then entry p a b
            else m ! a ! b)"
proof (cases "ii = jj")
  case True
  then show ?thesis
    using assms nth_mat_set [OF assms(1), of ii ii a b 0]
    by (auto simp: inner_step_def entry_def)
next
  case False
  let ?v = "km_between (p ! (ii - 1)) (p ! (jj - 1))"
  let ?d1 = "mat_set m ii jj ?v"
  have i1: "1 \<le> ii" and jn: "jj \<le> n" using assms by auto
  have s1: "square n ?d1" using assms(1) by (rule square_mat_set)
  have g: "mat_get ?d1 ii jj = ?v"
    using assms(1) i1 assms(4) assms(2) jn by (rule mat_get_mat_set)
  have e: "inner_step p ii jj m = mat_set ?d1 jj ii ?v"
    unfolding inner_step_def Let_def g using False by simp
  have lt: "jj - 1 < ii - 1" using False assms by auto
  show ?thesis
    unfolding e
    using nth_mat_set [OF s1 assms(2) jn i1 assms(4) assms(5,6), of ?v]
      nth_mat_set [OF assms(1) i1 assms(4) assms(2) jn assms(5,6), of ?v] lt
    by (auto simp: entry_def)
qed

lemma inner_loop:
  assumes "square n m" and "1 \<le> ii" and "ii \<le> n" and "j \<le> ii"
  shows "square n (fold (inner_step p ii) [1..<j + 1] m)
       \<and> (\<forall>a<n. \<forall>b<n. fold (inner_step p ii) [1..<j + 1] m ! a ! b =
             (if (a = ii - 1 \<and> b < j) \<or> (b = ii - 1 \<and> a < j) then entry p a b else m ! a ! b))"
  using assms(4)
proof (induction j)
  case 0
  then show ?case using assms(1) by simp
next
  case (Suc j)
  define m1 where "m1 = fold (inner_step p ii) [1..<j + 1] m"
  have ih: "square n m1"
    and ih2: "\<And>a b. a < n \<Longrightarrow> b < n \<Longrightarrow> m1 ! a ! b =
             (if (a = ii - 1 \<and> b < j) \<or> (b = ii - 1 \<and> a < j) then entry p a b else m ! a ! b)"
    using Suc unfolding m1_def by auto
  have f: "fold (inner_step p ii) [1..<Suc j + 1] m = inner_step p ii (Suc j) m1"
    unfolding m1_def by simp
  have sq: "square n (inner_step p ii (Suc j) m1)"
    using ih by (rule square_inner_step)
  have j1: "1 \<le> Suc j" by simp
  have "inner_step p ii (Suc j) m1 ! a ! b =
          (if (a = ii - 1 \<and> b < Suc j) \<or> (b = ii - 1 \<and> a < Suc j) then entry p a b else m ! a ! b)"
    if ab: "a < n" "b < n" for a b
  proof -
    have "inner_step p ii (Suc j) m1 ! a ! b =
            (if (a = ii - 1 \<and> b = j) \<or> (a = j \<and> b = ii - 1) then entry p a b else m1 ! a ! b)"
      using nth_inner_step [OF ih j1 Suc.prems assms(3) ab, of p] by simp
    then show ?thesis
      unfolding ih2 [OF ab] by (auto simp: less_Suc_eq)
  qed
  then show ?case unfolding f using sq by blast
qed

lemma outer_loop:
  assumes "square n m" and "k \<le> n"
  shows "square n (fold (\<lambda>ii dm. fold (inner_step p ii) [1..<ii + 1] dm) [1..<k + 1] m)
       \<and> (\<forall>a<n. \<forall>b<n.
             fold (\<lambda>ii dm. fold (inner_step p ii) [1..<ii + 1] dm) [1..<k + 1] m ! a ! b =
             (if a < k \<and> b < k then entry p a b else m ! a ! b))"
  using assms(2)
proof (induction k)
  case 0
  then show ?case using assms(1) by simp
next
  case (Suc k)
  define m1 where
    "m1 = fold (\<lambda>ii dm. fold (inner_step p ii) [1..<ii + 1] dm) [1..<k + 1] m"
  define m2 where "m2 = fold (inner_step p (Suc k)) [1..<Suc k + 1] m1"
  have ih: "square n m1"
    and ih2: "\<And>a b. a < n \<Longrightarrow> b < n \<Longrightarrow> m1 ! a ! b =
             (if a < k \<and> b < k then entry p a b else m ! a ! b)"
    using Suc unfolding m1_def by auto
  have f: "fold (\<lambda>ii dm. fold (inner_step p ii) [1..<ii + 1] dm) [1..<Suc k + 1] m = m2"
    unfolding m1_def m2_def by simp
  have k1: "1 \<le> Suc k" by simp
  note il = inner_loop [OF ih k1 Suc.prems order_refl, of p, folded m2_def]
  have sq: "square n m2"
    using il by (rule conjunct1)
  have il2: "\<And>a b. a < n \<Longrightarrow> b < n \<Longrightarrow> m2 ! a ! b =
             (if (a = Suc k - 1 \<and> b < Suc k) \<or> (b = Suc k - 1 \<and> a < Suc k) then entry p a b
              else m1 ! a ! b)"
    using il by blast
  have "m2 ! a ! b = (if a < Suc k \<and> b < Suc k then entry p a b else m ! a ! b)"
    if ab: "a < n" "b < n" for a b
    unfolding il2 [OF ab] ih2 [OF ab] by (auto simp: less_Suc_eq)
  then show ?case unfolding f using sq by blast
qed

lemma square_replicate: "square n (replicate n (replicate n v))"
  by (simp add: square_def list_all_length)

lemma for_loop_fold:
  assumes "\<And>i s. i \<in> set xs \<Longrightarrow> body i s = Inr (f i s)"
  shows "for_loop body xs s = Inr (fold f xs s)"
  using assms by (induction xs arbitrary: s) simp_all

lemma distances_inner_valid:
  assumes "valid_row (p ! (ii - 1))" and "valid_row (p ! (jj - 1))"
  shows "distances_inner p ii jj dm = Inr (inner_step p ii jj dm)"
  using assms
  by (simp add: distances_inner_def inner_step_def get_geo_distance_def distHaversine_def
        valid_row_def km_between_def Let_def)

lemma distances_value:
  assumes "p \<noteq> []" and "list_all valid_row p"
  shows "\<exists>m. distances p = Inr m \<and> square (length p) m
            \<and> (\<forall>a<length p. \<forall>b<length p. m ! a ! b = entry p a b)"
proof -
  let ?n = "length p"
  let ?init = "replicate ?n (replicate ?n (- 1 :: real))"
  let ?m = "fold (\<lambda>ii dm. fold (inner_step p ii) [1..<ii + 1] dm) [1..<?n + 1] ?init"
  have v: "valid_row (p ! a)" if "a < ?n" for a
    using assms(2) that by (simp add: list_all_length)
  have inner: "for_loop (distances_inner p ii) [1..<ii + 1] dm
                 = Inr (fold (inner_step p ii) [1..<ii + 1] dm)"
    if "ii \<in> set [1..<?n + 1]" for ii dm
  proof (rule for_loop_fold)
    fix jj s assume "jj \<in> set [1..<ii + 1]"
    then have "ii - 1 < ?n" and "jj - 1 < ?n" using that by auto
    then show "distances_inner p ii jj s = Inr (inner_step p ii jj s)"
      using v by (intro distances_inner_valid) simp_all
  qed
  have "for_loop (\<lambda>ii dm. for_loop (distances_inner p ii) [1..<ii + 1] dm) [1..<?n + 1] ?init
          = Inr ?m"
    using inner by (rule for_loop_fold)
  then have d: "distances p = Inr ?m"
    using assms(1) by (simp add: distances_def Let_def)
  note ol = outer_loop [OF square_replicate [of ?n "- 1"], of ?n p]
  show ?thesis using d ol by auto
qed

lemma entry_sym: "entry p a b = entry p b a"
  by (auto simp: entry_def)

lemma entry_diag: "entry p a a = 0"
  by (simp add: entry_def)

lemma haversine_same_point: "haversine q q = 0"
  by (simp add: haversine_def)

lemma haversine_nonneg:
  assumes "- 90 \<le> snd q1" and "snd q1 \<le> 90" and "- 90 \<le> snd q2" and "snd q2 \<le> 90"
  shows "0 \<le> haversine q1 q2"
proof -
  have c: "0 \<le> cos (v * (pi / 180))" if "- 90 \<le> v" "v \<le> 90" for v :: real
  proof (rule cos_ge_zero)
    have "v * (pi / 180) \<le> 90 * (pi / 180)"
      using that(2) by (intro mult_right_mono) simp_all
    then show "v * (pi / 180) \<le> pi / 2" by simp
    have "- 90 * (pi / 180) \<le> v * (pi / 180)"
      using that(1) by (intro mult_right_mono) simp_all
    then show "- (pi / 2) \<le> v * (pi / 180)" by simp
  qed
  define a where "a = (sin ((snd q2 * (pi / 180) - snd q1 * (pi / 180)) / 2))\<^sup>2
                    + cos (snd q1 * (pi / 180)) * cos (snd q2 * (pi / 180))
                      * (sin ((fst q2 * (pi / 180) - fst q1 * (pi / 180)) / 2))\<^sup>2"
  have "0 \<le> a"
    unfolding a_def using c [OF assms(1,2)] c [OF assms(3,4)] by simp
  then have s0: "0 \<le> sqrt (min a 1)" by simp
  have s1: "sqrt (min a 1) \<le> 1" by (simp add: min_def)
  have "arcsin 0 \<le> arcsin (sqrt (min a 1))"
    using s0 s1 by (intro arcsin_le_arcsin) simp_all
  then have "0 \<le> arcsin (sqrt (min a 1))" by simp
  then show ?thesis
    unfolding haversine_def Let_def a_def [symmetric] by simp
qed

text \<open>
  Claim C5, as stated, asks that every off-diagonal entry is strictly greater than 0. Two
  stations with the same coordinates are at distance 0.
\<close>

theorem distances_counterexample:
  "distances
     [\<lparr>loc = \<lparr>NAME = ''A'', LAT = 34, LONG = - 118, ALT = 10, MONTHS = replicate 12 1\<rparr>,
       pan = 12, scaled_alt = Some (- 1)\<rparr>,
      \<lparr>loc = \<lparr>NAME = ''B'', LAT = 34, LONG = - 118, ALT = 20, MONTHS = replicate 12 2\<rparr>,
       pan = 24, scaled_alt = Some 1\<rparr>]
   = Inr [[0, 0], [0, 0]]"
  by (simp add: distances_def distances_inner_def mat_set_def mat_get_def get_geo_distance_def
        distHaversine_def valid_point_def haversine_same_point upt_rec)

text \<open>
  Claim C5, amended. For every non-empty list of rows whose coordinates are geographic
  (longitude from -180 to 180, latitude from -90 to 90) the script builds an \<open>n \<times> n\<close>
  matrix with \<open>distance(i,j) = distance(j,i)\<close> for all pairs and \<open>distance(i,i) = 0\<close>
  for every \<open>i\<close>; the entry for \<open>j < i\<close> is the haversine distance in kilometres from
  location \<open>i\<close> to location \<open>j\<close>, and every entry is at least 0 (it is 0 off the
  diagonal when two locations have the same coordinates). For the empty list the script
  stops with an error.
\<close>

theorem distances_symmetric_zero_diagonal:
  "(p = [] \<longrightarrow> distances p = Inl SubscriptOutOfBounds)
   \<and> (p \<noteq> []
        \<and> list_all (\<lambda>r. - 180 \<le> LONG (loc r) \<and> LONG (loc r) \<le> 180
                       \<and> - 90 \<le> LAT (loc r) \<and> LAT (loc r) \<le> 90) p
      \<longrightarrow> (\<exists>m. distances p = Inr m
              \<and> square (length p) m
              \<and> (\<forall>i<length p. \<forall>j<length p. m ! i ! j = m ! j ! i)
              \<and> (\<forall>i<length p. m ! i ! i = 0)
              \<and> (\<forall>i<length p. \<forall>j<length p. 0 \<le> m ! i ! j)
              \<and> (\<forall>i<length p. \<forall>j<i. m ! i ! j =
                     haversine (LONG (loc (p ! i)), LAT (loc (p ! i)))
                               (LONG (loc (p ! j)), LAT (loc (p ! j))) / 1000)))"
proof (intro conjI impI)
  assume "p = []"
  then show "distances p = Inl SubscriptOutOfBounds" by (simp add: distances_def)
next
  assume a: "p \<noteq> []
        \<and> list_all (\<lambda>r. - 180 \<le> LONG (loc r) \<and> LONG (loc r) \<le> 180
                       \<and> - 90 \<le> LAT (loc r) \<and> LAT (loc r) \<le> 90) p"
  then have ne: "p \<noteq> []" by simp
  have g: "- 180 \<le> LONG (loc (p ! i)) \<and> LONG (loc (p ! i)) \<le> 180
            \<and> - 90 \<le> LAT (loc (p ! i)) \<and> LAT (loc (p ! i)) \<le> 90" if "i < length p" for i
    using a that by (simp add: list_all_length)
  have "list_all valid_row p"
    using g by (simp add: list_all_length valid_row_def valid_point_def) force
  from distances_value [OF ne this] obtain m where
    d: "distances p = Inr m" and sq: "square (length p) m"
    and v: "\<And>a b. a < length p \<Longrightarrow> b < length p \<Longrightarrow> m ! a ! b = entry p a b"
    by blast
  have 1: "\<forall>i<length p. \<forall>j<length p. m ! i ! j = m ! j ! i"
    using v entry_sym by simp
  have 2: "\<forall>i<length p. m ! i ! i = 0"
    using v entry_diag by simp
  have k: "0 \<le> km_between (p ! i) (p ! j)" if "i < length p" "j < length p" for i j
    using g [OF that(1)] g [OF that(2)] by (simp add: km_between_def haversine_nonneg)
  have 3: "\<forall>i<length p. \<forall>j<length p. 0 \<le> m ! i ! j"
    using v k by (simp add: entry_def)
  have 4: "\<forall>i<length p. \<forall>j<i. m ! i ! j =
            haversine (LONG (loc (p ! i)), LAT (loc (p ! i)))
                      (LONG (loc (p ! j)), LAT (loc (p ! j))) / 1000"
    using v by (auto simp: entry_def km_between_def)
  show "\<exists>m. distances p = Inr m
              \<and> square (length p) m
              \<and> (\<forall>i<length p. \<forall>j<length p. m ! i ! j = m ! j ! i)
              \<and> (\<forall>i<length p. m ! i ! i = 0)
              \<and> (\<forall>i<length p. \<forall>j<length p. 0 \<le> m ! i ! j)
              \<and> (\<forall>i<length p. \<forall>j<i. m ! i ! j =
                     haversine (LONG (loc (p ! i)), LAT (loc (p ! i)))
                               (LONG (loc (p ! j)), LAT (loc (p ! j))) / 1000)"
    using d sq 1 2 3 4 by blast
qed

text \<open>Two stations, one degree of latitude apart.\<close>

theorem distances_symmetric_zero_diagonal_witness:
  "[\<lparr>loc = \<lparr>NAME = ''A'', LAT = 34, LONG = - 118, ALT = 10, MONTHS = replicate 12 1\<rparr>,
     pan = 12, scaled_alt = Some (- 1)\<rparr>,
    \<lparr>loc = \<lparr>NAME = ''B'', LAT = 35, LONG = - 118, ALT = 20, MONTHS = replicate 12 2\<rparr>,
     pan = 24, scaled_alt = Some 1\<rparr>] \<noteq> []
   \<and> list_all (\<lambda>r. - 180 \<le> LONG (loc r) \<and> LONG (loc r) \<le> 180
                  \<and> - 90 \<le> LAT (loc r) \<and> LAT (loc r) \<le> 90)
        [\<lparr>loc = \<lparr>NAME = ''A'', LAT = 34, LONG = - 118, ALT = 10, MONTHS = replicate 12 1\<rparr>,
          pan = 12, scaled_alt = Some (- 1)\<rparr>,
         \<lparr>loc = \<lparr>NAME = ''B'', LAT = 35, LONG = - 118, ALT = 20, MONTHS = replicate 12 2\<rparr>,
          pan = 24, scaled_alt = Some 1\<rparr>]
   \<and> (\<exists>m. distances
         [\<lparr>loc = \<lparr>NAME = ''A'', LAT = 34, LONG = - 118, ALT = 10, MONTHS = replicate 12 1\<rparr>,
           pan = 12, scaled_alt = Some (- 1)\<rparr>,
          \<lparr>loc = \<lparr>NAME = ''B'', LAT = 35, LONG = - 118, ALT = 20, MONTHS = replicate 12 2\<rparr>,
           pan = 24, scaled_alt = Some 1\<rparr>] = Inr m
     \<and> m ! 0 ! 1 = m ! 1 ! 0 \<and> m ! 0 ! 0 = 0 \<and> m ! 1 ! 1 = 0 \<and> 0 \<le> m ! 1 ! 0
     \<and> m ! 1 ! 0 = haversine (- 118, 35) (- 118, 34) / 1000)"
proof -
  let ?p = "[\<lparr>loc = \<lparr>NAME = ''A'', LAT = 34, LONG = - 118, ALT = 10, MONTHS = replicate 12 1\<rparr>,
              pan = 12, scaled_alt = Some (- 1)\<rparr>,
             \<lparr>loc = \<lparr>NAME = ''B'', LAT = 35, LONG = - 118, ALT = 20, MONTHS = replicate 12 2\<rparr>,
              pan = 24, scaled_alt = Some 1\<rparr>]"
  have h1: "?p \<noteq> []" by simp
  have h2: "list_all (\<lambda>r. - 180 \<le> LONG (loc r) \<and> LONG (loc r) \<le> 180
                  \<and> - 90 \<le> LAT (loc r) \<and> LAT (loc r) \<le> 90) ?p" by simp
  from distances_symmetric_zero_diagonal [of ?p, THEN conjunct2, THEN mp, OF conjI [OF h1 h2]]
  obtain m where
    d: "distances ?p = Inr m"
    and sym: "\<forall>i<length ?p. \<forall>j<length ?p. m ! i ! j = m ! j ! i"
    and diag: "\<forall>i<length ?p. m ! i ! i = 0"
    and nn: "\<forall>i<length ?p. \<forall>j<length ?p. 0 \<le> m ! i ! j"
    and low: "\<forall>i<length ?p. \<forall>j<i. m ! i ! j =
            haversine (LONG (loc (?p ! i)), LAT (loc (?p ! i)))
                      (LONG (loc (?p ! j)), LAT (loc (?p ! j))) / 1000"
    by blast
  have b: "m ! 0 ! 1 = m ! 1 ! 0" using sym by simp
  have c: "m ! 0 ! 0 = 0" "m ! 1 ! 1 = 0" using diag by simp_all
  have e: "0 \<le> m ! 1 ! 0" using nn by simp
  have "m ! 1 ! 0 = haversine (LONG (loc (?p ! 1)), LAT (loc (?p ! 1)))
                          (LONG (loc (?p ! 0)), LAT (loc (?p ! 0))) / 1000"
    using low by simp
  then have f: "m ! 1 ! 0 = haversine (- 118, 35) (- 118, 34) / 1000" by simp
  have ex: "\<exists>m. distances ?p = Inr m
     \<and> m ! 0 ! 1 = m ! 1 ! 0 \<and> m ! 0 ! 0 = 0 \<and> m ! 1 ! 1 = 0 \<and> 0 \<le> m ! 1 ! 0
     \<and> m ! 1 ! 0 = haversine (- 118, 35) (- 118, 34) / 1000"
    using d b c e f by blast
  show ?thesis by (intro conjI h1 h2 ex)
qed

section \<open>Properties of the nearest-neighbour graph\<close>

lemma others_set: "set (filter (\<lambda>j. j \<noteq> i) [0..<n]) = {0..<n} - {i}"
  by auto

lemma others_length: "i < n \<Longrightarrow> length (filter (\<lambda>j. j \<noteq> i) [0..<n]) = n - 1"
proof -
  assume i: "i < n"
  have "distinct (filter (\<lambda>j. j \<noteq> i) [0..<n])" by simp
  then have "length (filter (\<lambda>j. j \<noteq> i) [0..<n]) = card ({0..<n} - {i})"
    using others_set [of i n] by (metis distinct_card)
  also have "\<dots> = n - 1" using i by simp
  finally show ?thesis .
qed

lemma nearest_length: "i < length dx \<Longrightarrow> length (nearest dx k i) = min k (length dx - 1)"
  by (simp add: nearest_def others_length)

lemma nearest_distinct: "distinct (nearest dx k i)"
  by (simp add: nearest_def)

lemma nearest_set: "set (nearest dx k i) \<subseteq> {0..<length dx} - {i}"
proof -
  have "set (nearest dx k i) \<subseteq> set (sort_key (\<lambda>j. (dx ! i ! j, j)) (filter (\<lambda>j. j \<noteq> i) [0..<length dx]))"
    unfolding nearest_def by (rule set_take_subset)
  then show ?thesis by auto
qed

lemma take_sorted_before_rest:
  assumes "sorted (map f ys)" and "a \<in> set (take k ys)" and "b \<in> set ys" and "b \<notin> set (take k ys)"
  shows "f a \<le> f b"
proof -
  have "b \<in> set (drop k ys)"
    using assms(3,4) by (metis Un_iff append_take_drop_id set_append)
  moreover have "sorted (map f (take k ys @ drop k ys))"
    using assms(1) by simp
  ultimately show ?thesis
    using assms(2) unfolding map_append sorted_append by auto
qed

lemma nearest_closest:
  assumes "j \<in> set (nearest dx k i)" and "j' < length dx" and "j' \<noteq> i"
    and "j' \<notin> set (nearest dx k i)"
  shows "dx ! i ! j < dx ! i ! j' \<or> (dx ! i ! j = dx ! i ! j' \<and> j < j')"
proof -
  let ?key = "\<lambda>j. (dx ! i ! j, j)"
  let ?ys = "sort_key ?key (filter (\<lambda>j. j \<noteq> i) [0..<length dx])"
  have s: "sorted (map ?key ?ys)" by (rule sorted_sort_key)
  have b: "j' \<in> set ?ys" using assms(2,3) by simp
  have "?key j \<le> ?key j'"
    using s assms(1) b assms(4) unfolding nearest_def by (rule take_sorted_before_rest)
  moreover have "j \<noteq> j'" using assms(1,4) by auto
  ultimately show ?thesis by (auto simp: less_eq_prod_def)
qed

lemma nng_edges:
  "set (edges (nng dx k False)) = {(i, j). i < length dx \<and> j \<in> set (nearest dx k i)}"
  by (auto simp: nng_def)

lemma nng_vcount: "vcount (nng dx k mutual) = length dx"
  by (simp add: nng_def Let_def)

lemma as_undirected_edges:
  "(a, b) \<in> set (edges (as_undirected g)) \<longleftrightarrow>
     a < b \<and> b < vcount g \<and> ((a, b) \<in> set (edges g) \<or> (b, a) \<in> set (edges g))"
  by (auto simp: as_undirected_def)

lemma as_undirected_distinct: "distinct (edges (as_undirected g))"
  by (simp add: as_undirected_def distinct_product)

lemma knn_graph_adjacent:
  "adjacent (knn_graph dx) i j \<longleftrightarrow>
     (i < length dx \<and> j \<in> set (nearest dx 5 i)) \<or> (j < length dx \<and> i \<in> set (nearest dx 5 j))"
proof -
  have r: "\<And>a b. b \<in> set (nearest dx 5 a) \<Longrightarrow> b < length dx \<and> b \<noteq> a"
    using nearest_set by fastforce
  show ?thesis
    unfolding adjacent_def knn_graph_def as_undirected_edges nng_edges nng_vcount
    using r by (auto simp: neq_iff)
qed

lemma nng_selected: "{j. (i, j) \<in> set (edges (nng dx k False))} =
                       (if i < length dx then set (nearest dx k i) else {})"
  by (auto simp: nng_edges)

text \<open>
  Claim C3. For a square distance matrix: in the directed graph of \<open>nng\<close> with
  \<open>k = 5\<close>, vertex \<open>i\<close> selects \<open>j\<close> when \<open>(i, j)\<close> is an edge. Every vertex selects 5 other vertices (all the others when there
  are fewer than 5), never itself; every selected vertex is closer to \<open>i\<close> than every
  vertex not selected, or as close and of lower index. In the graph the script builds,
  \<open>i\<close> and \<open>j\<close> are adjacent if and only if \<open>i\<close> selected \<open>j\<close> or \<open>j\<close> selected \<open>i\<close>, and
  every undirected edge is stored once.
\<close>

theorem knn_graph_edges:
  assumes "square (length dx) dx"
  shows
  "(\<forall>i < length dx.
       card {j. (i, j) \<in> set (edges (nng dx 5 False))} = min 5 (length dx - 1)
     \<and> (i, i) \<notin> set (edges (nng dx 5 False))
     \<and> (\<forall>j. (i, j) \<in> set (edges (nng dx 5 False)) \<longrightarrow> j < length dx)
     \<and> (\<forall>j j'. (i, j) \<in> set (edges (nng dx 5 False)) \<and> j' < length dx \<and> j' \<noteq> i
                \<and> (i, j') \<notin> set (edges (nng dx 5 False))
              \<longrightarrow> dx ! i ! j < dx ! i ! j' \<or> (dx ! i ! j = dx ! i ! j' \<and> j < j')))
   \<and> (\<forall>i j. adjacent (knn_graph dx) i j \<longleftrightarrow>
               (i, j) \<in> set (edges (nng dx 5 False)) \<or> (j, i) \<in> set (edges (nng dx 5 False)))
   \<and> distinct (edges (knn_graph dx))
   \<and> (\<forall>i j. (i, j) \<in> set (edges (knn_graph dx)) \<longrightarrow> i < j)"
proof -
  let ?E = "set (edges (nng dx 5 False))"
  have sel: "\<And>i j. (i, j) \<in> ?E \<longleftrightarrow> i < length dx \<and> j \<in> set (nearest dx 5 i)"
    by (simp add: nng_edges)
  have 1: "card {j. (i, j) \<in> ?E} = min 5 (length dx - 1)" if "i < length dx" for i
  proof -
    have "card {j. (i, j) \<in> ?E} = card (set (nearest dx 5 i))"
      using that by (simp add: nng_selected)
    also have "\<dots> = length (nearest dx 5 i)"
      using nearest_distinct by (rule distinct_card)
    finally show ?thesis using that by (simp add: nearest_length)
  qed
  have 2: "(i, i) \<notin> ?E" for i
    using nearest_set [of dx 5 i] by (auto simp: sel)
  have 3: "j < length dx" if "(i, j) \<in> ?E" for i j
    using that nearest_set [of dx 5 i] by (auto simp: sel)
  have 4: "dx ! i ! j < dx ! i ! j' \<or> (dx ! i ! j = dx ! i ! j' \<and> j < j')"
    if "(i, j) \<in> ?E" "j' < length dx" "j' \<noteq> i" "(i, j') \<notin> ?E" for i j j'
    using that by (intro nearest_closest [of j dx 5 i j']) (auto simp: sel)
  have 5: "adjacent (knn_graph dx) i j \<longleftrightarrow> (i, j) \<in> ?E \<or> (j, i) \<in> ?E" for i j
    unfolding knn_graph_adjacent sel ..
  have 6: "distinct (edges (knn_graph dx))"
    unfolding knn_graph_def by (rule as_undirected_distinct)
  have 7: "i < j" if "(i, j) \<in> set (edges (knn_graph dx))" for i j
    using that unfolding knn_graph_def as_undirected_edges by simp
  show ?thesis
    using 1 2 3 4 5 6 7 by (intro conjI allI impI) blast+
qed

text \<open>
  Seven stations on a line, one unit apart. Station 3 has stations 0 and 6 at the same
  distance 3 and selects station 0, of lower index; station 6 selects station 3, so 3 and
  6 are adjacent although 3 did not select 6; stations 0 and 6 select neither the other.
\<close>

theorem knn_graph_edges_witness:
  "let dx = [[0, 1, 2, 3, 4, 5, 6], [1, 0, 1, 2, 3, 4, 5], [2, 1, 0, 1, 2, 3, 4],
             [3, 2, 1, 0, 1, 2, 3], [4, 3, 2, 1, 0, 1, 2], [5, 4, 3, 2, 1, 0, 1],
             [6, 5, 4, 3, 2, 1, 0]]
   in square (length dx) dx \<and> 3 < length dx \<and> 6 < length dx
    \<and> (3, 0) \<in> set (edges (nng dx 5 False))
    \<and> (3, 6) \<notin> set (edges (nng dx 5 False))
    \<and> (6, 3) \<in> set (edges (nng dx 5 False))
    \<and> (0, 6) \<notin> set (edges (nng dx 5 False))
    \<and> (6, 0) \<notin> set (edges (nng dx 5 False))
    \<and> card {j. (3, j) \<in> set (edges (nng dx 5 False))} = 5
    \<and> (dx ! 3 ! 0 < dx ! 3 ! 6 \<or> (dx ! 3 ! 0 = dx ! 3 ! 6 \<and> (0::nat) < 6))
    \<and> adjacent (knn_graph dx) 3 6
    \<and> \<not> adjacent (knn_graph dx) 0 6"
proof -
  let ?dx = "[[0, 1, 2, 3, 4, 5, 6], [1, 0, 1, 2, 3, 4, 5], [2, 1, 0, 1, 2, 3, 4],
              [3, 2, 1, 0, 1, 2, 3], [4, 3, 2, 1, 0, 1, 2], [5, 4, 3, 2, 1, 0, 1],
              [6, 5, 4, 3, 2, 1, 0 :: real]]"
  let ?E = "set (edges (nng ?dx 5 False))"
  have n0: "nearest ?dx 5 0 = [1, 2, 3, 4, 5]"
    and n3: "nearest ?dx 5 3 = [2, 4, 1, 5, 0]"
    and n6: "nearest ?dx 5 6 = [5, 4, 3, 2, 1]"
    by (simp_all add: nearest_def upt_rec)
  have l: "3 < length ?dx" "6 < length ?dx" by simp_all
  have e30: "(3, 0) \<in> ?E" and e36: "(3, 6) \<notin> ?E" and e63: "(6, 3) \<in> ?E"
    and e06: "(0, 6) \<notin> ?E" and e60: "(6, 0) \<notin> ?E"
    unfolding nng_edges by (simp_all add: n0 n3 n6)
  have sq: "square (length ?dx) ?dx" by (simp add: square_def)
  note t = knn_graph_edges [OF sq]
  have c: "card {j. (3, j) \<in> ?E} = 5"
    using t l(1) by simp
  have d: "?dx ! 3 ! 0 < ?dx ! 3 ! 6 \<or> (?dx ! 3 ! 0 = ?dx ! 3 ! 6 \<and> (0::nat) < 6)"
  proof -
    have "\<forall>j j'. (3, j) \<in> ?E \<and> j' < length ?dx \<and> j' \<noteq> 3 \<and> (3, j') \<notin> ?E
              \<longrightarrow> ?dx ! 3 ! j < ?dx ! 3 ! j' \<or> (?dx ! 3 ! j = ?dx ! 3 ! j' \<and> j < j')"
      using t l(1) by blast
    moreover have "(6::nat) \<noteq> 3" by simp
    ultimately show ?thesis using e30 e36 l(2) by blast
  qed
  have adj: "\<And>i j. adjacent (knn_graph ?dx) i j \<longleftrightarrow> (i, j) \<in> ?E \<or> (j, i) \<in> ?E"
    using t by blast
  have a36: "adjacent (knn_graph ?dx) 3 6" using adj e63 by blast
  have a06: "\<not> adjacent (knn_graph ?dx) 0 6" using adj e06 e60 by blast
  show ?thesis
    unfolding Let_def by (intro conjI sq l e30 e36 e63 e06 e60 c d a36 a06)
qed

section \<open>Properties of the degree feature\<close>

lemma fold_max_Max: "fold max vs (v::nat) = Max (set (v # vs))"
  by (rule Max.set_eq_fold [symmetric])

lemma torch_max_Max: "t \<noteq> [] \<Longrightarrow> torch_max t = Inr (Max (set t))"
  by (cases t) (simp_all add: torch_max_def Max.set_eq_fold del: set_simps)

lemma degree_Some:
  "list_all (\<lambda>v. v < (N::nat)) index \<Longrightarrow> degree index (Some N) = Inr (map (\<lambda>v. count_list index v) [0..<N])"
  by (simp add: degree_def)

lemma degree_None:
  assumes "index \<noteq> []"
  shows "degree index None = Inr (map (\<lambda>v. count_list index v) [0..<Max (set index) + 1])"
proof -
  obtain v vs where i: "index = v # vs" using assms by (cases index) auto
  have m: "fold max vs v = Max (set index)" unfolding i by (rule fold_max_Max)
  have "list_all (\<lambda>u. u < Max (set index) + 1) index"
    by (simp add: list_all_iff less_Suc_eq_le)
  then show ?thesis
    unfolding degree_def by (simp add: i m [unfolded i] del: set_simps)
qed

lemma count_list_beyond:
  assumes "list_all (\<lambda>u. u < (N::nat)) index" and "N \<le> v"
  shows "count_list index v = 0"
proof -
  have "\<And>u. u \<in> set index \<Longrightarrow> u < N" using assms(1) by (simp add: list_all_iff)
  then have "v \<notin> set index" using assms(2) by (metis not_le)
  then show ?thesis by (simp add: count_list_0_iff)
qed

lemma max_degree_all_vertices:
  assumes "index \<noteq> []" and "list_all (\<lambda>u. u < N) index"
  shows "Max (set (map (\<lambda>v. count_list index v) [0..<Max (set index) + 1]))
           = Max ((\<lambda>v. count_list index v) ` {0..<N})"
proof -
  let ?d = "\<lambda>v. count_list index v"
  let ?M = "Max (set index)"
  have Min: "?M \<in> set index" using assms(1) by simp
  then have MN: "?M < N" using assms(2) by (simp add: list_all_iff)
  have sub: "?d ` {0..<?M + 1} \<subseteq> ?d ` {0..<N}" using MN by auto
  have ne: "?d ` {0..<?M + 1} \<noteq> {}" by simp
  have le1: "Max (?d ` {0..<?M + 1}) \<le> Max (?d ` {0..<N})"
    using sub ne by (intro Max_mono) simp_all
  have le2: "Max (?d ` {0..<N}) \<le> Max (?d ` {0..<?M + 1})"
  proof (rule Max.boundedI)
    show "finite (?d ` {0..<N})" by simp
    show "?d ` {0..<N} \<noteq> {}" using MN by auto
    fix a assume "a \<in> ?d ` {0..<N}"
    then obtain v where v: "v < N" "a = ?d v" by auto
    show "a \<le> Max (?d ` {0..<?M + 1})"
    proof (cases "v \<le> ?M")
      case True
      then have "a \<in> ?d ` {0..<?M + 1}" using v by auto
      then show ?thesis by (intro Max_ge) simp_all
    next
      case False
      then have "v \<notin> set index" using Max_ge [of "set index" v] by auto
      then show ?thesis using v by (simp add: count_list_0_iff)
    qed
  qed
  have s: "set (map ?d [0..<?M + 1]) = ?d ` {0..<?M + 1}"
    by (simp only: set_map set_upt)
  show ?thesis unfolding s using le1 le2 by (rule antisym)
qed

lemma one_hot_value:
  "list_all (\<lambda>d. d < C) ds \<Longrightarrow>
     one_hot ds C = Inr (map (\<lambda>d. map (\<lambda>j. if j = d then 1 else 0) [0..<C]) ds)"
  by (simp add: one_hot_def)

lemma count_list_fst_card:
  "distinct es \<Longrightarrow> count_list (map fst es) v = card {u. (v, u) \<in> set es}"
proof (induction es)
  case Nil
  then show ?case by simp
next
  case (Cons e es)
  obtain a b where e: "e = (a, b)" by (cases e)
  have fin: "finite {u. (v, u) \<in> set es}"
    by (rule finite_surj [of "set es" _ snd]) force+
  show ?case
  proof (cases "a = v")
    case True
    have "{u. (v, u) \<in> set (e # es)} = insert b {u. (v, u) \<in> set es}"
      using True e by auto
    moreover have "b \<notin> {u. (v, u) \<in> set es}"
      using Cons.prems True e by auto
    ultimately show ?thesis
      using Cons fin True e by simp
  next
    case False
    then have "{u. (v, u) \<in> set (e # es)} = {u. (v, u) \<in> set es}"
      using e by auto
    then show ?thesis using Cons False e by simp
  qed
qed

lemma add_degree_cell_value:
  assumes "edge_index g \<noteq> []" and "list_all (\<lambda>e. fst e < num_nodes g) (edge_index g)"
  shows "add_degree_cell g =
           Inr (g\<lparr>data_x :=
                  map2 (\<lambda>r h. r @ h) (data_x g)
                    (map (\<lambda>d. map (\<lambda>j. if j = d then 1 else 0)
                               [0..<Max ((\<lambda>u. count_list (map fst (edge_index g)) u)
                                           ` {0..<num_nodes g}) + 1])
                         (map (\<lambda>v. count_list (map fst (edge_index g)) v) [0..<num_nodes g]))\<rparr>)"
proof -
  let ?srcs = "map fst (edge_index g)"
  let ?N = "num_nodes g"
  let ?d = "\<lambda>v. count_list ?srcs v"
  let ?M = "Max (?d ` {0..<?N})"
  have ne: "?srcs \<noteq> []" using assms(1) by simp
  have inr: "list_all (\<lambda>u. u < ?N) ?srcs"
    using assms(2) by (simp add: list_all_iff)
  have d0: "degree ?srcs None = Inr (map ?d [0..<Max (set ?srcs) + 1])"
    using ne by (rule degree_None)
  have "map ?d [0..<Max (set ?srcs) + 1] \<noteq> []" by simp
  then have "torch_max (map ?d [0..<Max (set ?srcs) + 1])
               = Inr (Max (set (map ?d [0..<Max (set ?srcs) + 1])))"
    by (rule torch_max_Max)
  then have tm: "torch_max (map ?d [0..<Max (set ?srcs) + 1]) = Inr ?M"
    unfolding max_degree_all_vertices [OF ne inr] .
  have d1: "degree ?srcs (Some ?N) = Inr (map ?d [0..<?N])"
    using inr by (rule degree_Some)
  have "list_all (\<lambda>x. x < ?M + 1) (map ?d [0..<?N])"
    by (auto simp: list_all_iff less_Suc_eq_le intro!: Max_ge)
  then have oh: "one_hot (map ?d [0..<?N]) (?M + 1)
                  = Inr (map (\<lambda>x. map (\<lambda>j. if j = x then 1 else 0) [0..<?M + 1]) (map ?d [0..<?N]))"
    by (rule one_hot_value)
  show ?thesis
    unfolding add_degree_cell_def d0 sum.case tm OneHotDegree_def d1 oh ..
qed

text \<open>
  Claim C9. When the graph has at least one edge and every edge starts at a vertex of
  the graph, the cell appends to the feature vector of every vertex \<open>v\<close> a vector \<open>h\<close>
  whose length is the largest degree plus one, the same for all vertices, with
  \<open>h ! degree(v) = 1\<close> and every other entry 0. The degree of \<open>v\<close> is the number of
  entries of \<open>edge_index[0]\<close> equal to \<open>v\<close>; in an edge list without repeated edges this
  is the number of neighbours of \<open>v\<close>. Edges and targets are unchanged.
\<close>

theorem add_degree_one_hot:
  assumes "edge_index g \<noteq> []" and "list_all (\<lambda>e. fst e < num_nodes g) (edge_index g)"
  shows "\<exists>g'. add_degree_cell g = Inr g'
           \<and> edge_index g' = edge_index g \<and> data_y g' = data_y g
           \<and> length (data_x g') = num_nodes g
           \<and> (\<forall>v < num_nodes g. \<exists>h.
                  data_x g' ! v = data_x g ! v @ h
                \<and> length h = Max ((\<lambda>u. count_list (map fst (edge_index g)) u)
                                     ` {0..<num_nodes g}) + 1
                \<and> count_list (map fst (edge_index g)) v < length h
                \<and> h ! count_list (map fst (edge_index g)) v = 1
                \<and> (\<forall>j < length h. j \<noteq> count_list (map fst (edge_index g)) v \<longrightarrow> h ! j = 0)
                \<and> (distinct (edge_index g) \<longrightarrow>
                     count_list (map fst (edge_index g)) v
                       = card {u. (v, u) \<in> set (edge_index g)}))"
proof -
  let ?srcs = "map fst (edge_index g)"
  let ?N = "num_nodes g"
  let ?d = "\<lambda>v. count_list ?srcs v"
  let ?M = "Max (?d ` {0..<?N})"
  let ?oh = "\<lambda>d. map (\<lambda>j. if j = d then 1 else 0 :: real) [0..<?M + 1]"
  let ?g' = "g\<lparr>data_x := map2 (\<lambda>r h. r @ h) (data_x g) (map ?oh (map ?d [0..<?N]))\<rparr>"
  have v: "add_degree_cell g = Inr ?g'"
    using assms by (rule add_degree_cell_value)
  have len: "length (data_x ?g') = ?N"
    by (simp add: num_nodes_def)
  have dM: "?d v < ?M + 1" if "v < ?N" for v
    using that by (auto simp: less_Suc_eq_le intro!: Max_ge)
  have row: "\<exists>h. data_x ?g' ! v = data_x g ! v @ h
                \<and> length h = ?M + 1
                \<and> ?d v < length h
                \<and> h ! ?d v = 1
                \<and> (\<forall>j < length h. j \<noteq> ?d v \<longrightarrow> h ! j = 0)
                \<and> (distinct (edge_index g) \<longrightarrow> ?d v = card {u. (v, u) \<in> set (edge_index g)})"
    if "v < ?N" for v
  proof -
    have 1: "data_x ?g' ! v = data_x g ! v @ ?oh (?d v)"
      using that by (simp add: num_nodes_def)
    have 2: "length (?oh (?d v)) = ?M + 1" by simp
    have 3: "?oh (?d v) ! ?d v = 1"
      using dM [OF that] by (simp del: upt_Suc)
    have 4: "\<forall>j < length (?oh (?d v)). j \<noteq> ?d v \<longrightarrow> ?oh (?d v) ! j = 0"
      by (simp del: upt_Suc)
    have 5: "distinct (edge_index g) \<longrightarrow> ?d v = card {u. (v, u) \<in> set (edge_index g)}"
      by (simp add: count_list_fst_card)
    show ?thesis
      using 1 2 3 4 5 dM [OF that] by (intro exI [of _ "?oh (?d v)"] conjI) simp_all
  qed
  show ?thesis
    using v len row by (intro exI [of _ ?g'] conjI allI impI) simp_all
qed

text \<open>
  The path \<open>0 - 1 - 2\<close> with scaled altitudes \<open>-1, 0, 1\<close>: the degrees are 1, 2, 1, so
  three classes.
\<close>

lemma add_degree_cell_path:
  "add_degree_cell
     \<lparr>data_x = [[- 1], [0], [1]], edge_index = [(0, 1), (1, 0), (1, 2), (2, 1)],
      data_y = [10, 20, 30], data_train_mask = [], data_test_mask = []\<rparr>
   = Inr \<lparr>data_x = [[- 1, 0, 1, 0], [0, 0, 0, 1], [1, 0, 1, 0]],
          edge_index = [(0, 1), (1, 0), (1, 2), (2, 1)],
          data_y = [10, 20, 30], data_train_mask = [], data_test_mask = []\<rparr>"
  by (simp add: add_degree_cell_def degree_def torch_max_def OneHotDegree_def one_hot_def
        num_nodes_def upt_rec)

theorem add_degree_one_hot_witness:
  "let g = \<lparr>data_x = [[- 1], [0], [1]], edge_index = [(0, 1), (1, 0), (1, 2), (2, 1)],
             data_y = [10, 20, 30], data_train_mask = [], data_test_mask = []\<rparr>
   in edge_index g \<noteq> []
    \<and> list_all (\<lambda>e. fst e < num_nodes g) (edge_index g)
    \<and> (\<exists>g'. add_degree_cell g = Inr g'
           \<and> edge_index g' = edge_index g \<and> data_y g' = data_y g
           \<and> length (data_x g') = num_nodes g
           \<and> (\<forall>v < num_nodes g. \<exists>h.
                  data_x g' ! v = data_x g ! v @ h
                \<and> length h = Max ((\<lambda>u. count_list (map fst (edge_index g)) u)
                                     ` {0..<num_nodes g}) + 1
                \<and> count_list (map fst (edge_index g)) v < length h
                \<and> h ! count_list (map fst (edge_index g)) v = 1
                \<and> (\<forall>j < length h. j \<noteq> count_list (map fst (edge_index g)) v \<longrightarrow> h ! j = 0)
                \<and> (distinct (edge_index g) \<longrightarrow>
                     count_list (map fst (edge_index g)) v
                       = card {u. (v, u) \<in> set (edge_index g)})))"
proof -
  let ?g = "\<lparr>data_x = [[- 1], [0], [1]], edge_index = [(0, 1), (1, 0), (1, 2), (2, 1)],
             data_y = [10, 20, 30], data_train_mask = [], data_test_mask = []\<rparr>"
  have h1: "edge_index ?g \<noteq> []" by simp
  have h2: "list_all (\<lambda>e. fst e < num_nodes ?g) (edge_index ?g)"
    by (simp add: num_nodes_def)
  show ?thesis
    unfolding Let_def by (intro conjI h1 h2 add_degree_one_hot [OF h1 h2])
qed

section \<open>Properties of the partition\<close>

lemma count_true_mset: "mset xs = mset ys \<Longrightarrow> count_true xs = count_true ys"
  unfolding count_true_def by (metis mset_filter size_mset)

lemma count_true_threshold:
  "count_true (map (\<lambda>i. c > int i) [0..<n]) = nat (min (int n) (max 0 c))"
  unfolding count_true_def by (induction n) (auto simp: min_def max_def)

lemma count_true_Not: "count_true (map Not xs) = length xs - count_true xs"
  unfolding count_true_def by (induction xs) (auto simp: Suc_diff_le)

lemma count_true_le: "count_true xs \<le> length xs"
  unfolding count_true_def by simp

lemma randperm_mset: "is_randperm perm n \<Longrightarrow> mset perm = mset [0..<nat n]"
  by (simp add: is_randperm_def)

lemma randperm_bounds: "is_randperm perm n \<Longrightarrow> 0 \<le> n \<and> n < 2 ^ 63"
  by (simp add: is_randperm_def)

lemma randperm_length: "is_randperm perm n \<Longrightarrow> length perm = nat n"
  using randperm_mset [of perm n] by (metis length_upt minus_nat.diff_0 size_mset)

lemma randperm_set: "is_randperm perm n \<Longrightarrow> set perm = {0..<nat n}"
  using randperm_mset [of perm n] by (metis set_mset_mset set_upt)

lemma randperm_upt: "0 \<le> n \<Longrightarrow> n < 2 ^ 63 \<Longrightarrow> is_randperm [0..<nat n] n"
  by (simp add: is_randperm_def)

lemma randperm_index_select:
  assumes "is_randperm perm n" and "length t = nat n"
  shows "index_select t perm = Inr (map (\<lambda>i. t ! i) perm)"
proof -
  have "list_all (\<lambda>i. i < length t) perm"
    using randperm_set [OF assms(1)] assms(2) by (auto simp: list_all_iff)
  then show ?thesis by (simp add: index_select_def)
qed

lemma randperm_map_mset:
  assumes "is_randperm perm n"
  shows "mset (map f perm) = mset (map f [0..<nat n])"
  using randperm_mset [OF assms] by (metis mset_map)

lemma int64_scalar_in_range: "- (2 ^ 63) \<le> c \<Longrightarrow> c < 2 ^ 63 \<Longrightarrow> int64_scalar c = Inr c"
  by (simp add: int64_scalar_def)

lemma py_int_in_range:
  assumes "- (2 ^ 63) - 1 < t" and "t < 2 ^ 63"
  shows "- (2 ^ 63) \<le> py_int t \<and> py_int t < 2 ^ 63"
proof (cases "0 \<le> t")
  case True
  then have "py_int t = \<lfloor>t\<rfloor>" by (simp add: py_int_def)
  moreover have "\<lfloor>t\<rfloor> < 2 ^ 63" using assms(2) by (simp add: floor_less_iff)
  moreover have "0 \<le> \<lfloor>t\<rfloor>" using True by simp
  ultimately show ?thesis by simp
next
  case False
  then have "py_int t = \<lceil>t\<rceil>" by (simp add: py_int_def)
  moreover have "\<lceil>t\<rceil> \<le> 0" using False by (simp add: ceiling_le_iff)
  moreover have "- (2 ^ 63) \<le> \<lceil>t\<rceil>" using assms(1) by (simp add: le_ceiling_iff)
  ultimately show ?thesis by simp
qed

lemma make_train_test_masks_value:
  assumes "is_randperm perm n" and "int64_scalar (py_int t) = Inr c"
  shows "make_train_test_masks perm n t =
           Inr (map (\<lambda>i. c > int i) perm, map (\<lambda>i. \<not> c > int i) perm)"
proof -
  let ?u = "map (\<lambda>i. c > int i) [0..<nat n]"
  have n: "0 \<le> n" "n < 2 ^ 63" "n < 2 ^ 64"
    using randperm_bounds [OF assms(1)] by simp_all
  have sel: "index_select ?u perm = Inr (map (\<lambda>i. ?u ! i) perm)"
    using assms(1) by (rule randperm_index_select) simp
  have "map (\<lambda>i. ?u ! i) perm = map (\<lambda>i. c > int i) perm"
    using randperm_set [OF assms(1)] by (intro map_cong) auto
  then have sel': "index_select ?u perm = Inr (map (\<lambda>i. c > int i) perm)"
    using sel by (simp only:)
  show ?thesis
    unfolding make_train_test_masks_def arange_def using n
    by (simp add: assms(2) sel' comp_def)
qed

lemma train_count_value:
  assumes "is_randperm perm n"
  shows "count_true (map (\<lambda>i. c > int i) perm) = nat (min n (max 0 c))"
proof -
  have "count_true (map (\<lambda>i. c > int i) perm) = count_true (map (\<lambda>i. c > int i) [0..<nat n])"
    using randperm_map_mset [OF assms] by (rule count_true_mset)
  also have "\<dots> = nat (min (int (nat n)) (max 0 c))"
    by (rule count_true_threshold)
  also have "\<dots> = nat (min n (max 0 c))"
    by (auto simp: min_def max_def)
  finally show ?thesis .
qed

lemma py_int_of_int: "py_int (of_int c) = c"
  by (simp add: py_int_def)

lemma py_int_ref: "py_int (0.2 * real 456) = 91"
  by (simp add: py_int_def)

lemma partition_cell_value:
  assumes "is_randperm perm (int n)" and "int64_scalar (py_int (0.2 * real n)) = Inr c"
  shows "partition_cell perm n =
           Inr (map (\<lambda>i. c > int i) perm, map (\<lambda>i. \<not> c > int i) perm)"
  unfolding partition_cell_def using assms by (rule make_train_test_masks_value)

lemma masked_replicate_False: "length t = n \<Longrightarrow> masked t (replicate n False) = Inr []"
  unfolding masked_def by (auto simp: filter_empty_conv dest: set_zip_rightD)

lemma map_const_randperm:
  "is_randperm perm n \<Longrightarrow> map (\<lambda>i. b) perm = replicate (nat n) b"
  using randperm_length [of perm n] by (simp add: map_replicate_const)

text \<open>
  Claim C10, as stated, says that the function returns for every real train size and that
  the train mask has \<open>min n (max 0 (int t))\<close> entries True. With three vertices, the float
  \<open>1e30\<close> (the integer \<open>1000000000000000019884624838656\<close>) raises \<open>OverflowError\<close>
  in the comparison with the int64 tensor, and the train size \<open>2^63\<close> wraps around to a
  negative number and marks no vertex, not three.
\<close>

theorem make_train_test_masks_truncates_counterexample:
  "make_train_test_masks [2, 0, 1] 3 1000000000000000019884624838656 = Inl OverflowError
   \<and> make_train_test_masks [2, 0, 1] 3 (2 ^ 63) = Inr ([False, False, False], [True, True, True])"
  by (simp add: make_train_test_masks_def arange_def index_select_def py_int_def
        int64_scalar_def upt_rec)

text \<open>
  Claim C10, amended. The requested train size is truncated toward zero, not rounded: for
  every data size \<open>n\<close> with \<open>0 \<le> n < 2^63\<close>, every permutation drawn and every real train
  size \<open>t\<close> whose integer part is in the int64 range (\<open>- 2^63 - 1 < t < 2^63\<close>), the
  function returns a pair of masks (it does not raise), and the train mask has exactly
  \<open>min n (max 0 \<lfloor>t\<rfloor>)\<close> entries True.
\<close>

theorem make_train_test_masks_truncates:
  assumes "0 \<le> n" and "is_randperm perm n" and "- (2 ^ 63) - 1 < t" and "t < 2 ^ 63"
  shows "\<exists>train_mask test_mask.
           make_train_test_masks perm n t = Inr (train_mask, test_mask)
         \<and> int (count_true train_mask) = min n (max 0 \<lfloor>t\<rfloor>)"
proof -
  let ?c = "py_int t"
  have r: "int64_scalar ?c = Inr ?c"
    using py_int_in_range [OF assms(3,4)] by (simp add: int64_scalar_in_range)
  have 1: "make_train_test_masks perm n t =
             Inr (map (\<lambda>i. ?c > int i) perm, map (\<lambda>i. \<not> ?c > int i) perm)"
    using assms(2) r by (rule make_train_test_masks_value)
  have m: "max 0 ?c = max 0 \<lfloor>t\<rfloor>"
  proof (cases "0 \<le> t")
    case True
    then show ?thesis by (simp add: py_int_def)
  next
    case False
    then have "\<lceil>t\<rceil> \<le> 0" and "\<lfloor>t\<rfloor> \<le> 0"
      by (simp_all add: ceiling_le_iff floor_le_iff)
    then show ?thesis using False by (simp add: py_int_def)
  qed
  have "int (count_true (map (\<lambda>i. ?c > int i) perm)) = int (nat (min n (max 0 ?c)))"
    using train_count_value [OF assms(2), of ?c] by simp
  also have "\<dots> = min n (max 0 ?c)"
    using assms(1) by simp
  finally have 2: "int (count_true (map (\<lambda>i. ?c > int i) perm)) = min n (max 0 \<lfloor>t\<rfloor>)"
    using m by simp
  show ?thesis using 1 2 by blast
qed

text \<open>
  The reference call \<open>make_train_test_masks(456, 0.2 * 456)\<close>: the size \<open>91.2\<close> gives
  exactly 91 train vertices. So does the size \<open>91.8\<close>, which rounding would take to 92.
\<close>

theorem make_train_test_masks_truncates_witness:
  "(0::int) \<le> 456 \<and> is_randperm [0..<456] 456
   \<and> - (2 ^ 63) - 1 < (0.2 * 456 :: real) \<and> (0.2 * 456 :: real) < 2 ^ 63
   \<and> - (2 ^ 63) - 1 < (91.8 :: real) \<and> (91.8 :: real) < 2 ^ 63
   \<and> (\<exists>train_mask test_mask.
         make_train_test_masks [0..<456] 456 (0.2 * 456) = Inr (train_mask, test_mask)
       \<and> int (count_true train_mask) = 91)
   \<and> (\<exists>train_mask test_mask.
         make_train_test_masks [0..<456] 456 91.8 = Inr (train_mask, test_mask)
       \<and> int (count_true train_mask) = 91)"
proof -
  have n: "(0::int) \<le> 456" by simp
  have p: "is_randperm [0..<456] 456" by (simp add: is_randperm_def)
  have a1: "- (2 ^ 63) - 1 < (0.2 * 456 :: real)" by simp
  have a2: "(0.2 * 456 :: real) < 2 ^ 63" by simp
  have b1: "- (2 ^ 63) - 1 < (91.8 :: real)" by simp
  have b2: "(91.8 :: real) < 2 ^ 63" by simp
  have fa: "min 456 (max 0 \<lfloor>0.2 * 456 :: real\<rfloor>) = 91" by simp
  have fb: "min 456 (max 0 \<lfloor>91.8 :: real\<rfloor>) = 91" by simp
  note a = make_train_test_masks_truncates [OF n p a1 a2, unfolded fa]
  note b = make_train_test_masks_truncates [OF n p b1 b2, unfolded fb]
  show ?thesis by (intro conjI n p a1 a2 b1 b2 a b)
qed

text \<open>
  Claim C4, as stated, asks that the train mask has exactly \<open>c\<close> entries True for every
  vertex count and every train count \<open>c\<close>. With two vertices and \<open>c = 5\<close> the mask has two.
\<close>

theorem masks_partition_counterexample:
  "\<not> (case make_train_test_masks [1, 0] 2 5 of
         Inl e \<Rightarrow> False
       | Inr (train_mask, test_mask) \<Rightarrow> real (count_true train_mask) = 5)"
  by (simp add: make_train_test_masks_def arange_def index_select_def py_int_def
        int64_scalar_def count_true_def upt_rec)

text \<open>
  Claim C4, amended. For every vertex count \<open>n\<close> (below \<open>2^63\<close>, so that a permutation
  can be drawn), every whole train count \<open>c\<close> with
  \<open>0 \<le> c \<le> n\<close> and every permutation drawn, the function returns two masks of length
  \<open>n\<close>; the train mask has exactly \<open>c\<close> entries True; each vertex is in exactly one of the
  two masks (the test mask is the negation of the train mask), so the masks are disjoint
  and their sizes add up to \<open>n\<close>. The function reads no vertex feature and no target.
\<close>

theorem masks_partition:
  assumes "0 \<le> c" and "c \<le> n" and "is_randperm perm n"
  shows "\<exists>train_mask test_mask.
           make_train_test_masks perm n (of_int c) = Inr (train_mask, test_mask)
         \<and> length train_mask = nat n \<and> length test_mask = nat n
         \<and> int (count_true train_mask) = c
         \<and> (\<forall>v < nat n. test_mask ! v = (\<not> train_mask ! v))
         \<and> count_true train_mask + count_true test_mask = nat n"
proof -
  let ?tr = "map (\<lambda>i. c > int i) perm"
  let ?te = "map (\<lambda>i. \<not> c > int i) perm"
  have len: "length perm = nat n" using assms(3) by (rule randperm_length)
  have te: "?te = map Not ?tr" by (simp add: comp_def)
  have "c < 2 ^ 63" using assms(2) randperm_bounds [OF assms(3)] by simp
  then have r: "int64_scalar (py_int (of_int c)) = Inr c"
    using assms(1) by (simp add: py_int_of_int int64_scalar_in_range)
  have 1: "make_train_test_masks perm n (of_int c) = Inr (?tr, ?te)"
    using assms(3) r by (rule make_train_test_masks_value)
  have 2: "int (count_true ?tr) = c"
    using train_count_value [OF assms(3), of c] assms(1,2)
    by (simp add: min_def max_def)
  have 3: "\<forall>v < nat n. ?te ! v = (\<not> ?tr ! v)"
    using len by simp
  have 4: "count_true ?tr + count_true ?te = nat n"
    unfolding te count_true_Not using count_true_le [of ?tr] len by simp
  show ?thesis using 1 2 3 4 len by (intro exI conjI) simp_all
qed

text \<open>Three vertices, one of them for training, drawn in the order 2, 0, 1.\<close>

theorem masks_partition_witness:
  "(0::int) \<le> 1 \<and> (1::int) \<le> 3 \<and> is_randperm [2, 0, 1] 3
   \<and> (\<exists>train_mask test_mask.
         make_train_test_masks [2, 0, 1] 3 (of_int 1) = Inr (train_mask, test_mask)
       \<and> length train_mask = nat 3 \<and> length test_mask = nat 3
       \<and> int (count_true train_mask) = 1
       \<and> (\<forall>v < nat 3. test_mask ! v = (\<not> train_mask ! v))
       \<and> count_true train_mask + count_true test_mask = nat 3)"
proof -
  have p: "is_randperm [2, 0, 1] 3"
    by (simp add: is_randperm_def upt_rec)
  show ?thesis using masks_partition [of 1 3 "[2, 0, 1]"] p by simp
qed

text \<open>
  Claim C2, as stated, asks for about \<open>0.8 * 456\<close> train vertices and about
  \<open>0.2 * 456\<close> test vertices in the reference run. The call passes \<open>0.2 * 456\<close> as the
  train size, so it is the other way round.
\<close>

theorem reference_split_counterexample:
  "\<not> (case partition_cell [0..<456] 456 of
         Inl e \<Rightarrow> False
       | Inr (train_mask, test_mask) \<Rightarrow>
           near (count_true train_mask) (0.8 * 456) \<and> near (count_true test_mask) (0.2 * 456))"
proof -
  have p: "is_randperm [0..<456] 456" by (simp add: is_randperm_def)
  have p': "is_randperm [0..<456] (int 456)" by (simp add: is_randperm_def)
  have r: "int64_scalar (py_int (0.2 * real 456)) = Inr 91"
    unfolding py_int_ref by (simp add: int64_scalar_def)
  have 1: "partition_cell [0..<456] 456
             = Inr (map (\<lambda>i. 91 > int i) [0..<456], map (\<lambda>i. \<not> 91 > int i) [0..<456])"
    using p' r by (rule partition_cell_value)
  have 2: "count_true (map (\<lambda>i. 91 > int i) [0..<456]) = 91"
    using train_count_value [OF p, of 91] by (simp only:)
  have 3: "\<not> near 91 (0.8 * 456)"
    by (simp add: near_def)
  show ?thesis
    unfolding 1 sum.case prod.case 2 using 3 by blast
qed

text \<open>
  Claim C2, amended. In the reference run, with \<open>n = 456\<close> vertices and the train size
  \<open>0.2 * 456 = 91.2\<close>, the train mask marks exactly 91 vertices (about 20 percent) and the
  test mask the remaining 365 (about 80 percent), whichever permutation is drawn.
\<close>

theorem reference_split_sizes:
  assumes "is_randperm perm 456"
  shows "\<exists>train_mask test_mask.
           partition_cell perm 456 = Inr (train_mask, test_mask)
         \<and> count_true train_mask = 91 \<and> count_true test_mask = 365"
proof -
  let ?tr = "map (\<lambda>i. 91 > int i) perm"
  let ?te = "map (\<lambda>i. \<not> 91 > int i) perm"
  have len: "length perm = 456" using randperm_length [OF assms] by simp
  have te: "?te = map Not ?tr" by (simp add: comp_def)
  have p: "is_randperm perm (int 456)" using assms by simp
  have r: "int64_scalar (py_int (0.2 * real 456)) = Inr 91"
    unfolding py_int_ref by (simp add: int64_scalar_def)
  have 1: "partition_cell perm 456 = Inr (?tr, ?te)"
    using p r by (rule partition_cell_value)
  have 2: "count_true ?tr = 91"
    using train_count_value [OF assms, of 91] by (simp only:)
  have 3: "count_true ?te = 365"
    unfolding te count_true_Not using 2 len by simp
  show ?thesis using 1 2 3 by blast
qed

text \<open>The reference run when the permutation drawn is the identity.\<close>

theorem reference_split_sizes_witness:
  "is_randperm [0..<456] 456
   \<and> (\<exists>train_mask test_mask.
         partition_cell [0..<456] 456 = Inr (train_mask, test_mask)
       \<and> count_true train_mask = 91 \<and> count_true test_mask = 365)"
proof -
  have p: "is_randperm [0..<456] 456" by (simp add: is_randperm_def)
  show ?thesis by (rule conjI [OF p reference_split_sizes [OF p]])
qed

text \<open>
  Claim C6, as stated, asks that an empty train or test partition is an error. With train
  size 0 the function returns an empty train mask and a full test mask.
\<close>

theorem degenerate_split_counterexample:
  "make_train_test_masks [2, 0, 1] 3 0 = Inr ([False, False, False], [True, True, True])
   \<and> count_true [False, False, False] = 0"
  by (simp add: make_train_test_masks_def arange_def index_select_def py_int_def
        int64_scalar_def count_true_def upt_rec)

text \<open>
  Claim C6, amended. An empty partition is not reported as an error. For every vertex count
  \<open>n\<close> with \<open>0 \<le> n < 2^63\<close> and every permutation drawn, a train size \<open>t\<close> with \<open>- 2^63 - 1 < t < 1\<close> (its
  integer part is at most 0 and in the int64 range) returns the all-False train mask and
  the all-True test mask; a train size with \<open>n \<le> t < 2^63\<close> returns the all-True train
  mask and the all-False test mask; and the loss over an empty partition is \<open>nan\<close>, not a
  raise.
\<close>

theorem degenerate_split_returns:
  assumes "0 \<le> n" and "is_randperm perm n"
  shows "(- (2 ^ 63) - 1 < t \<and> t < 1 \<longrightarrow>
            make_train_test_masks perm n t = Inr (replicate (nat n) False, replicate (nat n) True))
       \<and> (of_int n \<le> t \<and> t < 2 ^ 63 \<longrightarrow>
            make_train_test_masks perm n t = Inr (replicate (nat n) True, replicate (nat n) False))
       \<and> (length p = nat n \<and> length ys = nat n \<longrightarrow>
            masked_loss p ys (replicate (nat n) False) = Inr None)"
proof -
  let ?c = "py_int t"
  have s: "\<And>i. i \<in> set perm \<Longrightarrow> int i < n"
    using randperm_set [OF assms(2)] by auto
  have k: "\<And>b. map (\<lambda>i. b) perm = replicate (nat n) b"
    using assms(2) by (rule map_const_randperm)
  have v: "make_train_test_masks perm n t =
             Inr (map (\<lambda>i. ?c > int i) perm, map (\<lambda>i. \<not> ?c > int i) perm)"
    if "- (2 ^ 63) - 1 < t" and "t < 2 ^ 63"
  proof -
    have "int64_scalar ?c = Inr ?c"
      using py_int_in_range [OF that] by (simp add: int64_scalar_in_range)
    with assms(2) show ?thesis by (rule make_train_test_masks_value)
  qed
  have lo: "make_train_test_masks perm n t = Inr (replicate (nat n) False, replicate (nat n) True)"
    if "- (2 ^ 63) - 1 < t" and "t < 1"
  proof -
    have c0: "?c \<le> 0"
      using that(2) by (auto simp: py_int_def ceiling_le_iff floor_le_iff)
    have "map (\<lambda>i. ?c > int i) perm = map (\<lambda>i. False) perm"
      using c0 by (intro map_cong) auto
    moreover have "map (\<lambda>i. \<not> ?c > int i) perm = map (\<lambda>i. True) perm"
      using c0 by (intro map_cong) auto
    moreover have "t < 2 ^ 63" using that(2) by (rule less_trans) simp
    ultimately show ?thesis using v [OF that(1)] by (simp only: k)
  qed
  have hi: "make_train_test_masks perm n t = Inr (replicate (nat n) True, replicate (nat n) False)"
    if "of_int n \<le> t" and "t < 2 ^ 63"
  proof -
    have t0: "0 \<le> t" using that(1) assms(1) by (meson of_int_0_le_iff order_trans)
    then have cn: "n \<le> ?c"
      using that(1) by (simp add: py_int_def le_floor_iff)
    have "map (\<lambda>i. ?c > int i) perm = map (\<lambda>i. True) perm"
      using cn s by (intro map_cong) force+
    moreover have "map (\<lambda>i. \<not> ?c > int i) perm = map (\<lambda>i. False) perm"
      using cn s by (intro map_cong) force+
    moreover have "- (2 ^ 63) - 1 < t" using t0 by (rule less_le_trans [rotated]) simp
    ultimately show ?thesis using v [OF _ that(2)] by (simp only: k)
  qed
  have c: "length p = nat n \<and> length ys = nat n \<longrightarrow>
            masked_loss p ys (replicate (nat n) False) = Inr None"
    by (simp add: masked_loss_def masked_replicate_False MSELoss_def mse_def)
  show ?thesis using lo hi c by blast
qed

text \<open>Three vertices with train sizes 0 and 3.\<close>

theorem degenerate_split_returns_witness:
  "(0::int) \<le> 3 \<and> is_randperm [2, 0, 1] 3
   \<and> - (2 ^ 63) - 1 < (0::real) \<and> (0::real) < 1
   \<and> of_int 3 \<le> (3::real) \<and> (3::real) < 2 ^ 63
   \<and> length [1, 2, 3 :: real] = nat 3 \<and> length [4, 5, 6 :: real] = nat 3
   \<and> make_train_test_masks [2, 0, 1] 3 0 = Inr (replicate (nat 3) False, replicate (nat 3) True)
   \<and> make_train_test_masks [2, 0, 1] 3 3 = Inr (replicate (nat 3) True, replicate (nat 3) False)
   \<and> masked_loss [1, 2, 3] [4, 5, 6] (replicate (nat 3) False) = Inr None"
proof -
  have n: "(0::int) \<le> 3" by simp
  have p: "is_randperm [2, 0, 1] 3"
    by (simp add: is_randperm_def upt_rec)
  have z: "- (2 ^ 63) - 1 < (0::real) \<and> (0::real) < 1" by simp
  have z3: "of_int 3 \<le> (3::real) \<and> (3::real) < 2 ^ 63" by simp
  have l: "length [1, 2, 3 :: real] = nat 3 \<and> length [4, 5, 6 :: real] = nat 3" by simp
  note a = degenerate_split_returns [OF n p, of 0 "[1, 2, 3]" "[4, 5, 6]"]
  note b = degenerate_split_returns [OF n p, of 3 "[1, 2, 3]" "[4, 5, 6]"]
  note 1 = a [THEN conjunct1, THEN mp, OF z]
  note 2 = b [THEN conjunct2, THEN conjunct1, THEN mp, OF z3]
  note 3 = a [THEN conjunct2, THEN conjunct2, THEN mp, OF l]
  show ?thesis
    by (intro conjI n p 1 2 3 z [THEN conjunct1] z [THEN conjunct2]
          z3 [THEN conjunct1] z3 [THEN conjunct2] l [THEN conjunct1] l [THEN conjunct2])
qed

section \<open>Properties of the evaluation\<close>

lemma for_loop_last:
  assumes "\<And>i s s'. I s \<Longrightarrow> body i s = Inr s' \<Longrightarrow> I s'"
    and "I s0" and "xs \<noteq> []" and "for_loop body xs s0 = Inr s"
  shows "\<exists>i s'. I s' \<and> body i s' = Inr s"
  using assms(2,3,4)
proof (induction xs arbitrary: s0)
  case Nil
  then show ?case by simp
next
  case (Cons i rest)
  from Cons.prems(3) obtain s1 where b: "body i s0 = Inr s1" and r: "for_loop body rest s1 = Inr s"
    by (auto split: sum.splits)
  show ?case
  proof (cases "rest = []")
    case True
    then have "s = s1" using r by simp
    then show ?thesis using b Cons.prems(1) by blast
  next
    case False
    have "I s1" using assms(1) Cons.prems(1) b by blast
    then show ?thesis using Cons.IH False r by blast
  qed
qed

lemma for_loop_invariant:
  assumes "\<And>i s. P s \<Longrightarrow> \<exists>s'. body i s = Inr s' \<and> Q s'"
    and "\<And>s. Q s \<Longrightarrow> P s" and "P s0" and "xs \<noteq> []"
  shows "\<exists>s. for_loop body xs s0 = Inr s \<and> Q s"
  using assms(3,4)
proof (induction xs arbitrary: s0)
  case Nil
  then show ?case by simp
next
  case (Cons i rest)
  from assms(1) [OF Cons.prems(1)] obtain s1 where b: "body i s0 = Inr s1" and q: "Q s1"
    by blast
  show ?case
  proof (cases "rest = []")
    case True
    then show ?thesis using b q by simp
  next
    case False
    then show ?thesis using Cons.IH [OF assms(2) [OF q]] b by simp
  qed
qed

lemma epoch_result:
  assumes "epoch lib g i s' = Inr s"
  shows "pred s = Some (fst (forward lib (model s') (generator s') g))
       \<and> training (model s) = training (model s')"
  using assms by (auto simp: epoch_def Let_def split: prod.splits sum.splits)

text \<open>
  Claim C1 says that the reported test loss is computed from a forward pass in
  non-training mode. The code does otherwise: after the training cell, \<open>pred\<close> holds the
  output of a forward pass made in training mode (the one of the last epoch, with dropout),
  and the test loss the evaluation cell reports is the loss of that \<open>pred\<close>. The pass in
  non-training mode is assigned to \<open>test_pred\<close>, which the loss does not read.
\<close>

theorem test_loss_from_training_pass:
  assumes "train_cell lib rng g = Inr s"
  shows "\<exists>m r. training m
           \<and> pred s = Some (fst (forward lib m r g))
           \<and> eval_cell lib g s =
               (case masked_loss (fst (forward lib m r g)) (data_y g) (data_test_mask g) of
                  Inl e \<Rightarrow> Inl e
                | Inr test_loss \<Rightarrow>
                    Inr (fst (forward lib ((model s)\<lparr>training := False\<rparr>) (generator s) g),
                         test_loss))"
proof -
  obtain m0 rng1 where mi: "Model_init lib rng (num_node_features g) = (m0, rng1)"
    by (cases "Model_init lib rng (num_node_features g)")
  let ?s0 = "\<lparr>model = m0\<lparr>training := True\<rparr>,
              optimizer = Adam_init lib (conv1 m0, conv2 m0) 0.01 0.0005,
              generator = rng1, pred = None, printed = []\<rparr>"
  have loop: "for_loop (epoch lib g) [0..<5000] ?s0 = Inr s"
    using assms by (simp add: train_cell_def mi Let_def)
  have ne: "[0..<5000::nat] \<noteq> []" by simp
  have inv: "\<And>i s s'. training (model s) \<Longrightarrow> epoch lib g i s = Inr s' \<Longrightarrow> training (model s')"
    using epoch_result by blast
  have "training (model ?s0)" by simp
  with inv obtain i s' where t: "training (model s')" and e: "epoch lib g i s' = Inr s"
    using for_loop_last [of "\<lambda>s. training (model s)" "epoch lib g" ?s0 "[0..<5000]" s] ne loop
    by blast
  let ?p = "fst (forward lib (model s') (generator s') g)"
  have p: "pred s = Some ?p" using epoch_result [OF e] by simp
  have ev: "eval_cell lib g s =
               (case masked_loss ?p (data_y g) (data_test_mask g) of
                  Inl e \<Rightarrow> Inl e
                | Inr test_loss \<Rightarrow>
                    Inr (fst (forward lib ((model s)\<lparr>training := False\<rparr>) (generator s) g),
                         test_loss))"
    by (simp add: eval_cell_def p Let_def case_prod_beta)
  show ?thesis using t p ev by blast
qed

lemma tiny_forward_training:
  "forward tiny_torch \<lparr>conv1 = 1, conv2 = 1, training = True\<rparr> () ring5_split
     = ([4, 8, 8, 8, 8], ())"
  by (simp add: forward_def tiny_torch_def ring5_split_def dropout_def relu_def Let_def)

lemma tiny_forward_eval:
  "forward tiny_torch \<lparr>conv1 = 1, conv2 = 1, training = False\<rparr> () ring5_split
     = ([3, 6, 6, 6, 6], ())"
  by (simp add: forward_def tiny_torch_def ring5_split_def dropout_def relu_def Let_def)

lemma tiny_train_loss:
  "masked_loss [4, 8, 8, 8, 8] (data_y ring5_split) (data_train_mask ring5_split) = Inr (Some 0)"
  by (simp add: masked_loss_def masked_def MSELoss_def mse_def ring5_split_def)

lemma tiny_reported_loss:
  "masked_loss [4, 8, 8, 8, 8] (data_y ring5_split) (data_test_mask ring5_split) = Inr (Some 0)"
  by (simp add: masked_loss_def masked_def MSELoss_def mse_def ring5_split_def)

lemma tiny_eval_loss:
  "masked_loss [3, 6, 6, 6, 6] (data_y ring5_split) (data_test_mask ring5_split) = Inr (Some 4)"
  by (simp add: masked_loss_def masked_def MSELoss_def mse_def ring5_split_def)

lemma tiny_epoch:
  assumes "model s = \<lparr>conv1 = 1, conv2 = 1, training = True\<rparr>"
  shows "\<exists>s'. epoch tiny_torch ring5_split i s = Inr s'
            \<and> model s' = \<lparr>conv1 = 1, conv2 = 1, training = True\<rparr>
            \<and> pred s' = Some [4, 8, 8, 8, 8]"
  using tiny_forward_training tiny_train_loss
  by (simp add: epoch_def assms Let_def) (simp add: tiny_torch_def)

lemma tiny_train_cell:
  "\<exists>s. train_cell tiny_torch () ring5_split = Inr s
       \<and> model s = \<lparr>conv1 = 1, conv2 = 1, training = True\<rparr>
       \<and> pred s = Some [4, 8, 8, 8, 8]"
proof -
  let ?s0 = "\<lparr>model = \<lparr>conv1 = 1, conv2 = 1, training = True\<rparr>,
              optimizer = (), generator = (), pred = None, printed = []\<rparr>
             :: (real, unit, unit) session"
  have t: "train_cell tiny_torch () ring5_split = for_loop (epoch tiny_torch ring5_split) [0..<5000] ?s0"
    by (simp add: train_cell_def Model_init_def Let_def) (simp add: tiny_torch_def)
  have "\<exists>s. for_loop (epoch tiny_torch ring5_split) [0..<5000] ?s0 = Inr s
          \<and> (model s = \<lparr>conv1 = 1, conv2 = 1, training = True\<rparr> \<and> pred s = Some [4, 8, 8, 8, 8])"
  proof (rule for_loop_invariant
      [where P = "\<lambda>s. model s = \<lparr>conv1 = 1, conv2 = 1, training = True\<rparr>"])
    show "\<exists>s'. epoch tiny_torch ring5_split i s = Inr s'
            \<and> (model s' = \<lparr>conv1 = 1, conv2 = 1, training = True\<rparr> \<and> pred s' = Some [4, 8, 8, 8, 8])"
      if "model s = \<lparr>conv1 = 1, conv2 = 1, training = True\<rparr>" for i s
      using that by (rule tiny_epoch)
    show "model s = \<lparr>conv1 = 1, conv2 = 1, training = True\<rparr>"
      if "model s = \<lparr>conv1 = 1, conv2 = 1, training = True\<rparr> \<and> pred s = Some [4, 8, 8, 8, 8]"
      for s :: "(real, unit, unit) session"
      using that by simp
    show "model ?s0 = \<lparr>conv1 = 1, conv2 = 1, training = True\<rparr>" by simp
    show "[0..<5000::nat] \<noteq> []" by simp
  qed
  then show ?thesis unfolding t .
qed

lemma tiny_eval_cell:
  assumes "model s = \<lparr>conv1 = 1, conv2 = 1, training = True\<rparr>" and "pred s = Some [4, 8, 8, 8, 8]"
  shows "eval_cell tiny_torch ring5_split s = Inr ([3, 6, 6, 6, 6], Some 0)"
  using tiny_forward_eval tiny_reported_loss
  by (simp add: eval_cell_def assms Let_def)

text \<open>
  The small instance: five stations on a ring, the first one for training. The last
  training pass predicts \<open>4, 8, 8, 8, 8\<close>, equal to the targets, so the cell reports the
  test loss 0; the pass without dropout predicts \<open>3, 6, 6, 6, 6\<close>, whose test loss is 4.
\<close>

theorem test_loss_from_training_pass_witness:
  "\<exists>s. train_cell tiny_torch () ring5_split = Inr s
       \<and> (\<exists>m r. training m
             \<and> pred s = Some (fst (forward tiny_torch m r ring5_split))
             \<and> eval_cell tiny_torch ring5_split s =
                 (case masked_loss (fst (forward tiny_torch m r ring5_split))
                         (data_y ring5_split) (data_test_mask ring5_split) of
                    Inl e \<Rightarrow> Inl e
                  | Inr test_loss \<Rightarrow>
                      Inr (fst (forward tiny_torch ((model s)\<lparr>training := False\<rparr>)
                                  (generator s) ring5_split),
                           test_loss)))
       \<and> eval_cell tiny_torch ring5_split s = Inr ([3, 6, 6, 6, 6], Some 0)
       \<and> masked_loss [3, 6, 6, 6, 6] (data_y ring5_split) (data_test_mask ring5_split)
           = Inr (Some 4)"
proof -
  from tiny_train_cell obtain s where
    t: "train_cell tiny_torch () ring5_split = Inr s"
    and m: "model s = \<lparr>conv1 = 1, conv2 = 1, training = True\<rparr>"
    and p: "pred s = Some [4, 8, 8, 8, 8]"
    by blast
  note g = test_loss_from_training_pass [OF t]
  note e = tiny_eval_cell [OF m p]
  show ?thesis
    by (intro exI [of _ s] conjI t g e tiny_eval_loss)
qed

text \<open>The notebook as a whole on the ring reports the test loss 0.\<close>

lemma tiny_notebook:
  "case notebook tiny_torch () ring5 of
     Inl e \<Rightarrow> False
   | Inr (tr, te, losses, test_loss) \<Rightarrow>
       tr = [True, False, False, False, False] \<and> te = [False, True, True, True, True]
     \<and> test_loss = Some 0"
proof -
  have a: "add_degree_cell ring5 = Inr (ring5\<lparr>data_x :=
             [[2, 0, 0, 1], [5, 0, 0, 1], [5, 0, 0, 1], [5, 0, 0, 1], [5, 0, 0, 1]]\<rparr>)"
    by (simp add: add_degree_cell_def degree_def torch_max_def OneHotDegree_def one_hot_def
          num_nodes_def ring5_def upt_rec)
  have b: "partition_cell [0..<5] 5
             = Inr ([True, False, False, False, False], [False, True, True, True, True])"
    by (simp add: partition_cell_def make_train_test_masks_def arange_def index_select_def
          py_int_def int64_scalar_def upt_rec)
  have c: "ring5\<lparr>data_x := [[2, 0, 0, 1], [5, 0, 0, 1], [5, 0, 0, 1], [5, 0, 0, 1], [5, 0, 0, 1]],
                 data_train_mask := [True, False, False, False, False],
                 data_test_mask := [False, True, True, True, True]\<rparr> = ring5_split"
    by (simp add: ring5_def ring5_split_def)
  from tiny_train_cell obtain s where
    t: "train_cell tiny_torch () ring5_split = Inr s"
    and m: "model s = \<lparr>conv1 = 1, conv2 = 1, training = True\<rparr>"
    and p: "pred s = Some [4, 8, 8, 8, 8]"
    by blast
  note e = tiny_eval_cell [OF m p]
  have n: "num_nodes (ring5\<lparr>data_x :=
             [[2, 0, 0, 1], [5, 0, 0, 1], [5, 0, 0, 1], [5, 0, 0, 1], [5, 0, 0, 1]]\<rparr>) = 5"
    by (simp add: num_nodes_def)
  have r: "randperm tiny_torch (manual_seed tiny_torch 42) 5 = ([0..<5], ())"
    by (simp add: tiny_torch_def)
  show ?thesis
    unfolding notebook_def Let_def a sum.case n r prod.case b c t e by simp
qed

section \<open>Properties of the seeded random draws\<close>

lemma shuffle_seeded:
  "shuffle R rng0 p = r_rows p (fst (sample R (set_seed R 42) (length p)))"
  by (simp add: shuffle_def Let_def split: prod.splits)

text \<open>
  Claim C7. Both stages seed the generator before the first random draw, so the row
  order, the partition and the reported losses do not depend on the state of the
  generator when the run starts: two runs on the same input give the same results. The
  row order is the one drawn from the generator seeded with 42, and so is the
  permutation of the partition.
\<close>

theorem seeded_runs_agree:
  "shuffle R rng0 p = r_rows p (fst (sample R (set_seed R 42) (length p)))
   \<and> preprocess R rng0 p0 = preprocess R rng0' p0
   \<and> notebook lib s0 g0 = notebook lib s0' g0
   \<and> notebook lib s0 g0 =
       (case add_degree_cell g0 of
          Inl e \<Rightarrow> Inl e
        | Inr g1 \<Rightarrow>
            (case partition_cell (fst (randperm lib (manual_seed lib 42) (num_nodes g1)))
                    (num_nodes g1) of
               Inl e \<Rightarrow> Inl e
             | Inr (tr, te) \<Rightarrow>
                 (case train_cell lib (snd (randperm lib (manual_seed lib 42) (num_nodes g1)))
                         (g1\<lparr>data_train_mask := tr, data_test_mask := te\<rparr>) of
                    Inl e \<Rightarrow> Inl e
                  | Inr s \<Rightarrow>
                      (case eval_cell lib (g1\<lparr>data_train_mask := tr, data_test_mask := te\<rparr>) s of
                         Inl e \<Rightarrow> Inl e
                       | Inr (test_pred, test_loss) \<Rightarrow> Inr (tr, te, printed s, test_loss)))))"
proof -
  have 1: "shuffle R rng0 p = r_rows p (fst (sample R (set_seed R 42) (length p)))"
    by (rule shuffle_seeded)
  have 2: "preprocess R rng0 p0 = preprocess R rng0' p0"
    by (simp add: preprocess_def shuffle_seeded)
  have 3: "notebook lib s0 g0 = notebook lib s0' g0"
    by (simp add: notebook_def)
  have 4: "notebook lib s0 g0 =
       (case add_degree_cell g0 of
          Inl e \<Rightarrow> Inl e
        | Inr g1 \<Rightarrow>
            (case partition_cell (fst (randperm lib (manual_seed lib 42) (num_nodes g1)))
                    (num_nodes g1) of
               Inl e \<Rightarrow> Inl e
             | Inr (tr, te) \<Rightarrow>
                 (case train_cell lib (snd (randperm lib (manual_seed lib 42) (num_nodes g1)))
                         (g1\<lparr>data_train_mask := tr, data_test_mask := te\<rparr>) of
                    Inl e \<Rightarrow> Inl e
                  | Inr s \<Rightarrow>
                      (case eval_cell lib (g1\<lparr>data_train_mask := tr, data_test_mask := te\<rparr>) s of
                         Inl e \<Rightarrow> Inl e
                       | Inr (test_pred, test_loss) \<Rightarrow> Inr (tr, te, printed s, test_loss)))))"
    by (simp add: notebook_def Let_def split: prod.splits sum.splits)
  show ?thesis using 1 2 3 4 by (intro conjI)
qed

end
